theory Spec2Isabelle
  imports Complex_Main
begin

section \<open>Host values\<close>

text \<open>
  The client of \<^verbatim>\<open>src/client.ts\<close> runs on a JavaScript host. The part of the host the
  client touches is modelled here: the values that are sent and received, numbers as far
  as the backoff table needs them, and the \<^verbatim>\<open>WebSocket\<close> object with its \<^verbatim>\<open>readyState\<close>.

  A message is a \<^verbatim>\<open>Record<string, unknown>\<close>, so it may hold values that \<^verbatim>\<open>JSON.stringify\<close>
  refuses with a \<^verbatim>\<open>TypeError\<close>: a \<^verbatim>\<open>BigInt\<close> (\<open>JBigInt\<close>), or an object that contains itself
  (\<open>JCyclic\<close>).
\<close>

datatype json =
    JNull
  | JBool bool
  | JNumber int
  | JString string
  | JArray "json list"
  | JObject "(string \<times> json) list"
  | JBigInt int
  | JCyclic

text \<open>JavaScript's truthiness (\<^verbatim>\<open>ToBoolean\<close>), as used by \<^verbatim>\<open>message && ...\<close>.\<close>

fun truthy :: "json \<Rightarrow> bool" where
  "truthy JNull = False"
| "truthy (JBool b) = b"
| "truthy (JNumber n) = (n \<noteq> 0)"
| "truthy (JString s) = (s \<noteq> [])"
| "truthy (JArray _) = True"
| "truthy (JObject _) = True"
| "truthy (JBigInt n) = (n \<noteq> 0)"
| "truthy JCyclic = True"

text \<open>
  \<^verbatim>\<open>JSON.stringify\<close> throws a \<^verbatim>\<open>TypeError\<close> exactly on the values that hold a \<^verbatim>\<open>BigInt\<close> or
  a cycle.
\<close>

fun serializable :: "json \<Rightarrow> bool" where
  "serializable JNull = True"
| "serializable (JBool b) = True"
| "serializable (JNumber n) = True"
| "serializable (JString s) = True"
| "serializable (JArray xs) = (\<forall>x \<in> set xs. serializable x)"
| "serializable (JObject kvs) = (\<forall>kv \<in> set kvs. serializable (snd kv))"
| "serializable (JBigInt n) = False"
| "serializable JCyclic = False"

text \<open>
  A JavaScript number is an IEEE double. The only arithmetic of the client is
  \<^verbatim>\<open>Math.pow(2, i) * 1000\<close> on an array index \<open>i\<close>. A power of two below \<open>2 ^ 1024\<close> is a
  double, and so is \<open>1000\<close> times a power of two (\<open>125\<close> times a power of two) as long as it
  stays below \<open>2 ^ 1024\<close>; from there on the operation overflows to \<^verbatim>\<open>Infinity\<close>. The two
  operations are modelled on these arguments only.
\<close>

datatype js_number = Finite int | Infinity

definition Math_pow2 :: "nat \<Rightarrow> js_number" where
  "Math_pow2 i = (if i < 1024 then Finite (2 ^ i) else Infinity)"

definition js_times :: "js_number \<Rightarrow> int \<Rightarrow> js_number" where
  "js_times x k =
     (case x of
        Finite v \<Rightarrow> if v * k < 2 ^ 1024 then Finite (v * k) else Infinity
      | Infinity \<Rightarrow> Infinity)"

section \<open>Configuration\<close>

text \<open>
  \<^verbatim>\<open>WebSocketClientConfig\<close>: every option but \<^verbatim>\<open>url\<close> may be absent (\<open>None\<close>). The number of
  reconnect attempts is any finite number, fractions included (\<^verbatim>\<open>NaN\<close> and the infinities
  are left out).
\<close>

record config =
  url :: string
  maxQueueSize :: "int option"
  maxReconnectAttempts :: "rat option"
  idleTimeout :: "int option"
  autoConnect :: "bool option"

text \<open>\<^verbatim>\<open>x || d\<close> on an optional number: \<open>undefined\<close> and \<open>0\<close> are falsy.\<close>

definition or_default :: "'a::zero option \<Rightarrow> 'a \<Rightarrow> 'a" where
  "or_default x d = (case x of None \<Rightarrow> d | Some n \<Rightarrow> if n = 0 then d else n)"

definition maxQueueSize_of :: "config \<Rightarrow> int" where
  "maxQueueSize_of cfg = or_default (maxQueueSize cfg) 10"

definition maxReconnectAttempts_of :: "config \<Rightarrow> rat" where
  "maxReconnectAttempts_of cfg = or_default (maxReconnectAttempts cfg) 5"

datatype js_error =
    TypeError
  | RangeError
  | InvalidStateError
  | SyntaxError
  | NotOpenError
  | ListenerThrew

text \<open>
  \<^verbatim>\<open>ToLength\<close>, which \<^verbatim>\<open>Array.from\<close> applies to the \<^verbatim>\<open>length\<close> of its argument: the number is
  truncated to an integer and clamped to the range from \<open>0\<close> to \<open>2 ^ 53 - 1\<close>.
\<close>

definition ToLength :: "rat \<Rightarrow> nat" where
  "ToLength x = (if x \<le> 0 then 0 else min (nat \<lfloor>x\<rfloor>) (2 ^ 53 - 1))"

text \<open>
  \<^verbatim>\<open>Array.from({ length: n }, (_, i) => Math.pow(2, i) * 1000)\<close>: the array is made with
  \<^verbatim>\<open>new Array(len)\<close>, which throws a \<^verbatim>\<open>RangeError\<close> for a length above \<open>2 ^ 32 - 1\<close>; otherwise
  the entries are computed from their indices.
\<close>

definition reconnectTimeouts :: "rat \<Rightarrow> js_error + js_number list" where
  "reconnectTimeouts n =
     (let len = ToLength n in
      if len > 2 ^ 32 - 1 then Inl RangeError
      else Inr (map (\<lambda>i. js_times (Math_pow2 i) 1000) [0..<len]))"

section \<open>The socket\<close>

datatype ready_state = CONNECTING | OPEN | CLOSING | CLOSED

datatype ws_event = OpenEvent | ErrorEvent

text \<open>What a listener added by \<^verbatim>\<open>isReady\<close> does to the promise with the given index.\<close>

datatype settle = Resolve nat | Reject nat

datatype promise_state = Pending | Fulfilled | Rejected

text \<open>
  A \<^verbatim>\<open>WebSocket\<close> object: its \<^verbatim>\<open>readyState\<close>, the frames handed to the transport (oldest
  first) and the \<^verbatim>\<open>{ once: true }\<close> listeners added with \<^verbatim>\<open>addEventListener\<close>.
\<close>

record websocket =
  readyState :: ready_state
  sent :: "string list"
  onceListeners :: "(ws_event \<times> settle) list"

section \<open>Listeners\<close>

datatype event_kind = message_ev | error_ev | open_ev | close_ev | idle_ev

datatype event_arg =
    MessageArg json
  | CloseArg int
  | ErrorArg
  | NoArg

text \<open>
  A listener is a callback identity. What its body does when it is invoked is given by
  the environment: it may call unsubscribe functions (its own or another listener's) and
  it may throw.
\<close>

datatype effect = Unsubscribe event_kind nat | Throw

section \<open>Environment and client state\<close>

text \<open>
  The environment collects what the client calls but does not define: the host's
  \<^verbatim>\<open>JSON.stringify\<close> (\<open>None\<close> where it throws its \<^verbatim>\<open>TypeError\<close>) and \<^verbatim>\<open>JSON.parse\<close> (\<open>None\<close> for
  a \<^verbatim>\<open>SyntaxError\<close>), the \<open>readyState\<close> in which the user agent leaves a socket after it
  has accepted a frame (it may start closing the socket when the frame cannot be
  buffered), and the bodies of the registered callbacks.
\<close>

record env =
  JSON_stringify :: "json \<Rightarrow> string option"
  JSON_parse :: "string \<Rightarrow> json option"
  after_send :: "websocket \<Rightarrow> ready_state"
  callback :: "nat \<Rightarrow> effect list"

text \<open>
  The variables that the closures of \<^verbatim>\<open>createClient\<close> share, the \<^verbatim>\<open>$messageQueue\<close> store,
  and what the outside observes: the listener invocations, the pending
  \<^verbatim>\<open>setTimeout(() => reconnect(attempt + 1), delay)\<close> calls as pairs of the delay and of the
  argument of \<^verbatim>\<open>reconnect\<close>, the number of console diagnostics, and the promises
  returned by \<^verbatim>\<open>isReady\<close>.
\<close>

record client =
  ws :: "websocket option"
  messageQueue :: "json list"
  listeners :: "event_kind \<Rightarrow> nat list"
  invoked :: "(nat \<times> event_arg) list"
  timeouts :: "(js_number \<times> nat) list"
  console :: nat
  promises :: "promise_state list"

text \<open>A result: the exception that escaped, if any, and the state left behind.\<close>

type_synonym outcome = "js_error option \<times> client"

text \<open>\<^verbatim>\<open>ws?.readyState\<close>: \<open>None\<close> is \<^verbatim>\<open>undefined\<close>.\<close>

definition ws_readyState :: "client \<Rightarrow> ready_state option" where
  "ws_readyState st = map_option readyState (ws st)"

text \<open>
  \<^verbatim>\<open>WebSocket.send\<close>: throws while the socket is connecting, transmits when it is open,
  and discards the data silently when it is closing or closed.
\<close>

definition socket_send :: "env \<Rightarrow> string \<Rightarrow> websocket \<Rightarrow> js_error + websocket" where
  "socket_send e d w =
     (case readyState w of
        CONNECTING \<Rightarrow> Inl InvalidStateError
      | OPEN \<Rightarrow>
          (let w' = w\<lparr>sent := sent w @ [d]\<rparr> in Inr (w'\<lparr>readyState := after_send e w'\<rparr>))
      | CLOSING \<Rightarrow> Inr w
      | CLOSED \<Rightarrow> Inr w)"

text \<open>\<^verbatim>\<open>ws.send(data)\<close> on the shared variable: a \<^verbatim>\<open>TypeError\<close> when it is \<^verbatim>\<open>null\<close>.\<close>

definition ws_send :: "env \<Rightarrow> string \<Rightarrow> client \<Rightarrow> outcome" where
  "ws_send e d st =
     (case ws st of
        None \<Rightarrow> (Some TypeError, st)
      | Some w \<Rightarrow>
          (case socket_send e d w of
             Inl err \<Rightarrow> (Some err, st)
           | Inr w' \<Rightarrow> (None, st\<lparr>ws := Some w'\<rparr>)))"

section \<open>The outbound queue store\<close>

text \<open>
  The store module \<^verbatim>\<open>../../stores\<close> (\<^verbatim>\<open>$messageQueue\<close>, \<^verbatim>\<open>$queuePush\<close>, \<^verbatim>\<open>$queueShift\<close>,
  \<^verbatim>\<open>$queueUnshift\<close>) is not among the sources; its three operations follow section 4.2 of
  the specification. They take no bound: the bound is applied by the caller, \<^verbatim>\<open>send\<close>, as
  the source has it.
\<close>

text \<open>
  Modelled from the spec: \<^verbatim>\<open>$queuePush\<close> of the missing store module; "push(msg) appends".
\<close>

definition queuePush :: "json \<Rightarrow> client \<Rightarrow> client" where
  "queuePush m st = st\<lparr>messageQueue := messageQueue st @ [m]\<rparr>"

text \<open>
  Modelled from the spec: \<^verbatim>\<open>$queueShift\<close> of the missing store module; "shift() removes and
  returns the oldest entry, or signals empty" (\<open>None\<close>).
\<close>

definition queueShift :: "client \<Rightarrow> json option \<times> client" where
  "queueShift st =
     (case messageQueue st of
        [] \<Rightarrow> (None, st)
      | m # q \<Rightarrow> (Some m, st\<lparr>messageQueue := q\<rparr>))"

text \<open>
  Modelled from the spec: \<^verbatim>\<open>$queueUnshift\<close> of the missing store module; "unshift(msg)
  re-inserts an entry at the front".
\<close>

definition queueUnshift :: "json \<Rightarrow> client \<Rightarrow> client" where
  "queueUnshift m st = st\<lparr>messageQueue := m # messageQueue st\<rparr>"

section \<open>send\<close>

text \<open>
  \<^verbatim>\<open>ws.send(JSON.stringify(message))\<close>: the argument is evaluated first, and its
  \<^verbatim>\<open>TypeError\<close> escapes before anything is sent.
\<close>

definition ws_send_json :: "env \<Rightarrow> json \<Rightarrow> client \<Rightarrow> outcome" where
  "ws_send_json e message st =
     (case JSON_stringify e message of
        None \<Rightarrow> (Some TypeError, st)
      | Some d \<Rightarrow> ws_send e d st)"

definition send :: "env \<Rightarrow> config \<Rightarrow> json \<Rightarrow> client \<Rightarrow> outcome" where
  "send e cfg message st =
     (if ws_readyState st = Some OPEN then
        ws_send_json e message st
      else if ws_readyState st \<noteq> Some CLOSED then
        (let st1 = queuePush message st in
         if int (length (messageQueue st1)) > maxQueueSize_of cfg
         then (None, snd (queueShift st1))
         else (None, st1))
      else (None, st))"


section \<open>Listener registries\<close>

text \<open>\<^verbatim>\<open>Array.prototype.indexOf\<close>: the first index of the element, or \<open>-1\<close>.\<close>

fun indexOf :: "nat list \<Rightarrow> nat \<Rightarrow> int" where
  "indexOf [] x = -1"
| "indexOf (y # ys) x =
     (if y = x then 0 else (let i = indexOf ys x in if i = -1 then -1 else i + 1))"

text \<open>\<^verbatim>\<open>xs.splice(i, 1)\<close> for an index of the array.\<close>

definition splice1 :: "nat list \<Rightarrow> nat \<Rightarrow> nat list" where
  "splice1 xs i = take i xs @ drop (Suc i) xs"

text \<open>
  \<^verbatim>\<open>onMessage\<close>, \<^verbatim>\<open>onError\<close>, \<^verbatim>\<open>onOpen\<close>, \<^verbatim>\<open>onClose\<close> and \<^verbatim>\<open>onIdle\<close> are the same code on the
  five arrays of \<^verbatim>\<open>listeners\<close>: the listener is pushed, and the function returned removes
  its first occurrence.
\<close>

definition addListener :: "event_kind \<Rightarrow> nat \<Rightarrow> client \<Rightarrow> client" where
  "addListener kind l st = st\<lparr>listeners := (listeners st)(kind := listeners st kind @ [l])\<rparr>"

definition removeListener :: "event_kind \<Rightarrow> nat \<Rightarrow> client \<Rightarrow> client" where
  "removeListener kind l st =
     (let index = indexOf (listeners st kind) l in
      if index \<noteq> -1
      then st\<lparr>listeners := (listeners st)(kind := splice1 (listeners st kind) (nat index))\<rparr>
      else st)"

definition onMessage :: "nat \<Rightarrow> client \<Rightarrow> client" where
  "onMessage = addListener message_ev"

definition onError :: "nat \<Rightarrow> client \<Rightarrow> client" where
  "onError = addListener error_ev"

definition onOpen :: "nat \<Rightarrow> client \<Rightarrow> client" where
  "onOpen = addListener open_ev"

definition onClose :: "nat \<Rightarrow> client \<Rightarrow> client" where
  "onClose = addListener close_ev"

definition onIdle :: "nat \<Rightarrow> client \<Rightarrow> client" where
  "onIdle = addListener idle_ev"

text \<open>The body of a callback runs its effects in order; a throw ends it.\<close>

fun run_body :: "effect list \<Rightarrow> client \<Rightarrow> outcome" where
  "run_body [] st = (None, st)"
| "run_body (Unsubscribe kind l # es) st = run_body es (removeListener kind l st)"
| "run_body (Throw # es) st = (Some ListenerThrew, st)"

definition call_listener :: "env \<Rightarrow> nat \<Rightarrow> event_arg \<Rightarrow> client \<Rightarrow> outcome" where
  "call_listener e l arg st = run_body (callback e l) (st\<lparr>invoked := invoked st @ [(l, arg)]\<rparr>)"

text \<open>
  \<^verbatim>\<open>listeners.kind.forEach((listener) => listener(arg))\<close>. \<^verbatim>\<open>Array.prototype.forEach\<close>
  reads the length once, then visits the indices \<open>0, 1, \<dots>\<close> below it in turn; at each
  index it calls the callback on the element that the array holds there at that moment,
  and skips an index that the array no longer has. An exception of a callback ends the
  loop and escapes.
\<close>

function forEach_from ::
  "env \<Rightarrow> event_kind \<Rightarrow> event_arg \<Rightarrow> nat \<Rightarrow> nat \<Rightarrow> client \<Rightarrow> outcome" where
  "forEach_from e kind arg k len st =
     (if k < len then
        (if k < length (listeners st kind) then
           (case call_listener e (listeners st kind ! k) arg st of
              (None, st') \<Rightarrow> forEach_from e kind arg (Suc k) len st'
            | (Some err, st') \<Rightarrow> (Some err, st'))
         else forEach_from e kind arg (Suc k) len st)
      else (None, st))"
  by pat_completeness auto
termination
  by (relation "measure (\<lambda>(e, kind, arg, k, len, st). len - k)") auto

declare forEach_from.simps [simp del]

definition forEach :: "env \<Rightarrow> event_kind \<Rightarrow> event_arg \<Rightarrow> client \<Rightarrow> outcome" where
  "forEach e kind arg st = forEach_from e kind arg 0 (length (listeners st kind)) st"

section \<open>The socket's handlers\<close>

text \<open>
  The \<^verbatim>\<open>try\<close> block of the drain loop: the message is written when it is truthy and the
  socket is open, otherwise an \<^verbatim>\<open>Error\<close> is thrown. An exception of the write itself ends
  the block in the same way.
\<close>

definition try_write :: "env \<Rightarrow> json option \<Rightarrow> client \<Rightarrow> outcome" where
  "try_write e message st =
     (case message of
        Some m \<Rightarrow>
          if truthy m \<and> ws_readyState st = Some OPEN
          then ws_send_json e m st
          else (Some NotOpenError, st)
      | None \<Rightarrow> (Some NotOpenError, st))"

lemma messageQueue_ws_send [simp]: "messageQueue (snd (ws_send e d st)) = messageQueue st"
  by (simp add: ws_send_def split: option.splits sum.splits)

lemma messageQueue_ws_send_json [simp]:
  "messageQueue (snd (ws_send_json e m st)) = messageQueue st"
  by (simp add: ws_send_json_def split: option.splits)

lemma messageQueue_try_write [simp]:
  "messageQueue (snd (try_write e message st)) = messageQueue st"
  by (simp add: try_write_def split: option.splits)

text \<open>
  The \<^verbatim>\<open>while\<close> loop of \<^verbatim>\<open>ws.onopen\<close>. The \<^verbatim>\<open>catch\<close> block reports on the console, puts the
  message back and breaks. (\<^verbatim>\<open>$queueShift\<close> returns an entry whenever the loop is entered,
  so the \<open>None\<close> case of the \<^verbatim>\<open>catch\<close> block is never reached.)
\<close>

function drain :: "env \<Rightarrow> client \<Rightarrow> client" where
  "drain e st =
     (if length (messageQueue st) > 0 then
        (case queueShift st of
           (message, st1) \<Rightarrow>
             (case try_write e message st1 of
                (None, st2) \<Rightarrow> drain e st2
              | (Some err, st2) \<Rightarrow>
                  (case message of
                     Some m \<Rightarrow> queueUnshift m (st2\<lparr>console := console st2 + 1\<rparr>)
                   | None \<Rightarrow> st2\<lparr>console := console st2 + 1\<rparr>)))
      else st)"
  by pat_completeness auto
termination
proof (relation "measure (\<lambda>(e, st). length (messageQueue st))")
  show "wf (measure (\<lambda>(e, st). length (messageQueue st)))" by simp
next
  fix e :: env and st st1 st2 :: client and message ex
  assume nonempty: "0 < length (messageQueue st)"
    and shift: "(message, st1) = queueShift st"
    and wr: "(ex, st2) = try_write e message st1"
  from wr have "messageQueue st2 = messageQueue (snd (try_write e message st1))"
    by (metis snd_conv)
  then have "messageQueue st2 = messageQueue st1" by simp
  moreover from nonempty shift have "length (messageQueue st1) < length (messageQueue st)"
    by (cases "messageQueue st") (simp_all add: queueShift_def)
  ultimately show "((e, st2), (e, st)) \<in> measure (\<lambda>(e, st). length (messageQueue st))"
    by simp
qed

declare drain.simps [simp del]

definition onopen :: "env \<Rightarrow> client \<Rightarrow> outcome" where
  "onopen e st = forEach e open_ev NoArg (drain e st)"

text \<open>
  The payload of a \<^verbatim>\<open>MessageEvent\<close>: a string, or a \<^verbatim>\<open>Blob\<close> or an \<^verbatim>\<open>ArrayBuffer\<close> for a
  binary frame. The handler also tests for a \<^verbatim>\<open>String\<close> object.
\<close>

datatype ws_data = TextData string | StringObject string | BlobData | ArrayBufferData

text \<open>\<^verbatim>\<open>JSON.parse\<close> converts its argument to a string first.\<close>

fun data_toString :: "ws_data \<Rightarrow> string" where
  "data_toString (TextData s) = s"
| "data_toString (StringObject s) = s"
| "data_toString BlobData = ''[object Blob]''"
| "data_toString ArrayBufferData = ''[object ArrayBuffer]''"

text \<open>
  \<^verbatim>\<open>(event?.data && typeof event?.data === "string") || event?.data instanceof String\<close>:
  the empty string is falsy.
\<close>

fun is_text :: "ws_data \<Rightarrow> bool" where
  "is_text (TextData s) = (s \<noteq> [])"
| "is_text (StringObject s) = True"
| "is_text BlobData = False"
| "is_text ArrayBufferData = False"

text \<open>The wrapper \<^verbatim>\<open>{ data: event?.data }\<close>.\<close>

definition wrapper :: "ws_data \<Rightarrow> json" where
  "wrapper d = JObject [(''data'', JString (data_toString d))]"

text \<open>The \<^verbatim>\<open>try\<close> block of \<^verbatim>\<open>ws.onmessage\<close>.\<close>

definition parse_and_publish :: "env \<Rightarrow> ws_data \<Rightarrow> client \<Rightarrow> outcome" where
  "parse_and_publish e d st =
     (case JSON_parse e (data_toString d) of
        None \<Rightarrow> (Some SyntaxError, st)
      | Some message \<Rightarrow> forEach e message_ev (MessageArg message) st)"

definition onmessage :: "env \<Rightarrow> ws_data \<Rightarrow> client \<Rightarrow> outcome" where
  "onmessage e d st =
     (case parse_and_publish e d st of
        (None, st') \<Rightarrow> (None, st')
      | (Some err, st') \<Rightarrow>
          if is_text d
          then forEach e message_ev (MessageArg (wrapper d)) st'
          else (None, st'\<lparr>console := console st' + 3\<rparr>))"

text \<open>
  \<^verbatim>\<open>ws.onclose\<close> of the socket that \<^verbatim>\<open>reconnect(attempt)\<close> made; \<open>code\<close> is the close event's
  code. The handler belongs to a client that was made, so the table was built (\<open>Inr\<close>),
  and the index \<open>attempt\<close> is inside it wherever the condition holds.
\<close>

definition onclose :: "env \<Rightarrow> config \<Rightarrow> nat \<Rightarrow> int \<Rightarrow> client \<Rightarrow> outcome" where
  "onclose e cfg attempt code st =
     (let st1 =
        (if ws st \<noteq> None \<and> ws_readyState st \<noteq> Some CLOSED
            \<and> of_nat attempt < maxReconnectAttempts_of cfg - 1
            \<and> code \<noteq> 1000
         then
           (case reconnectTimeouts (maxReconnectAttempts_of cfg) of
              Inr table \<Rightarrow> st\<lparr>timeouts := timeouts st @ [(table ! attempt, attempt + 1)]\<rparr>
            | Inl err \<Rightarrow> st)
         else st)
      in forEach e close_ev (CloseArg code) st1)"

definition onerror :: "env \<Rightarrow> client \<Rightarrow> outcome" where
  "onerror e st = forEach e error_ev ErrorArg st"

section \<open>connect, getStatus and isReady\<close>

text \<open>
  \<^verbatim>\<open>reconnect\<close> replaces the shared socket by a new one, which starts connecting. (The
  URL and the token it is built from play no part in what follows and are left out; the
  handlers installed on the socket are the functions above, with \<open>attempt\<close> as their
  argument.)
\<close>

definition reconnect :: "client \<Rightarrow> client" where
  "reconnect st = st\<lparr>ws := Some \<lparr>readyState = CONNECTING, sent = [], onceListeners = []\<rparr>\<rparr>"

definition connect :: "client \<Rightarrow> client" where
  "connect st = (if ws st = None \<or> ws_readyState st = Some CLOSED then reconnect st else st)"

datatype WebSocketClientState =
    DISCONNECTED
  | State_CONNECTING
  | CONNECTED
  | State_CLOSING
  | State_CLOSED

definition getStatus :: "client \<Rightarrow> WebSocketClientState" where
  "getStatus st =
     (case ws st of
        None \<Rightarrow> DISCONNECTED
      | Some w \<Rightarrow>
          (case readyState w of
             CONNECTING \<Rightarrow> State_CONNECTING
           | OPEN \<Rightarrow> CONNECTED
           | CLOSING \<Rightarrow> State_CLOSING
           | CLOSED \<Rightarrow> State_CLOSED))"

text \<open>
  \<^verbatim>\<open>isReady\<close> makes a promise (its index in \<open>promises\<close> is returned). The executor resolves it
  at once when the socket is open; otherwise it adds two one-shot listeners to the
  socket that \<^verbatim>\<open>ws\<close> holds at that moment, and adds nothing when \<^verbatim>\<open>ws\<close> is \<^verbatim>\<open>null\<close>.
\<close>

definition isReady :: "client \<Rightarrow> nat \<times> client" where
  "isReady st =
     (let p = length (promises st) in
      if ws_readyState st = Some OPEN then (p, st\<lparr>promises := promises st @ [Fulfilled]\<rparr>)
      else
        (case ws st of
           None \<Rightarrow> (p, st\<lparr>promises := promises st @ [Pending]\<rparr>)
         | Some w \<Rightarrow>
             (p, st\<lparr>promises := promises st @ [Pending],
                   ws := Some (w\<lparr>onceListeners := onceListeners w @
                                  [(OpenEvent, Resolve p), (ErrorEvent, Reject p)]\<rparr>)\<rparr>)))"

text \<open>Resolving or rejecting a promise changes it only while it is pending.\<close>

definition settle_promise :: "settle \<Rightarrow> promise_state list \<Rightarrow> promise_state list" where
  "settle_promise s ps =
     (case s of
        Resolve p \<Rightarrow> if p < length ps \<and> ps ! p = Pending then ps[p := Fulfilled] else ps
      | Reject p \<Rightarrow> if p < length ps \<and> ps ! p = Pending then ps[p := Rejected] else ps)"

text \<open>
  The host dispatches an event on the shared socket: the handler property first (it was
  set when the socket was made), then the one-shot listeners of that event in the order
  they were added, each removed as it runs. An exception of one listener is reported by
  the host and does not keep the others from running.
\<close>

definition dispatch_once :: "ws_event \<Rightarrow> client \<Rightarrow> client" where
  "dispatch_once ev st =
     (case ws st of
        None \<Rightarrow> st
      | Some w \<Rightarrow>
          st\<lparr>promises := fold settle_promise
                 (map snd (filter (\<lambda>l. fst l = ev) (onceListeners w))) (promises st),
               ws := Some (w\<lparr>onceListeners := filter (\<lambda>l. fst l \<noteq> ev) (onceListeners w)\<rparr>)\<rparr>)"

text \<open>The socket reaches \<^verbatim>\<open>OPEN\<close> and its \<^verbatim>\<open>open\<close> event fires.\<close>

definition socket_opens :: "env \<Rightarrow> client \<Rightarrow> client" where
  "socket_opens e st =
     (case ws st of
        None \<Rightarrow> st
      | Some w \<Rightarrow>
          dispatch_once OpenEvent (snd (onopen e (st\<lparr>ws := Some (w\<lparr>readyState := OPEN\<rparr>)\<rparr>))))"

text \<open>The socket's \<^verbatim>\<open>error\<close> event fires.\<close>

definition socket_errors :: "env \<Rightarrow> client \<Rightarrow> client" where
  "socket_errors e st = dispatch_once ErrorEvent (snd (onerror e st))"

text \<open>
  The shared socket, made by \<^verbatim>\<open>reconnect(attempt)\<close>, closes: the host sets its \<open>readyState\<close>
  to \<^verbatim>\<open>CLOSED\<close> and then fires its \<^verbatim>\<open>close\<close> event.
\<close>

definition socket_closes :: "env \<Rightarrow> config \<Rightarrow> nat \<Rightarrow> int \<Rightarrow> client \<Rightarrow> outcome" where
  "socket_closes e cfg attempt code st =
     (case ws st of
        None \<Rightarrow> (None, st)
      | Some w \<Rightarrow> onclose e cfg attempt code (st\<lparr>ws := Some (w\<lparr>readyState := CLOSED\<rparr>)\<rparr>))"

section \<open>createClient\<close>

text \<open>
  What lives outside the closures of one client: the module variable \<^verbatim>\<open>instance\<close> (here
  \<open>instance_var\<close>; a client is named by its index in \<open>clients\<close>), the \<^verbatim>\<open>$token\<close> store, and
  counters for the window listeners added, the idle timers started and the token
  requests made. (The \<^verbatim>\<open>$token\<close> store is in the missing store module as well; it is a value
  with a synchronous getter and setter, section 6 of the specification.)
\<close>

record module_state =
  instance_var :: "nat option"
  token :: "string option"
  clients :: "(config \<times> client) list"
  window_listeners :: nat
  idle_timers :: nat
  token_requests :: nat

definition new_client :: client where
  "new_client =
     \<lparr>ws = None, messageQueue = [], listeners = (\<lambda>kind. []), invoked = [], timeouts = [],
      console = 0, promises = []\<rparr>"

text \<open>
  \<^verbatim>\<open>createClient\<close> is an \<^verbatim>\<open>async\<close> function: a call runs until it returns, or throws (its
  promise is then rejected), or reaches \<^verbatim>\<open>await fetch(...)\<close>, where it is suspended and other
  code runs until the response arrives. The first part of a call ends in one of these
  three ways.
\<close>

datatype create_step = Returned nat | Threw js_error | Awaiting config

text \<open>From the token check's end to \<^verbatim>\<open>return instance\<close>.\<close>

definition createClient_finish :: "config \<Rightarrow> module_state \<Rightarrow> nat \<times> module_state" where
  "createClient_finish cfg ms =
     (let h = length (clients ms);
          c = (if autoConnect cfg \<noteq> Some False then connect new_client else new_client)
      in (h, ms\<lparr>instance_var := Some h, clients := clients ms @ [(cfg, c)]\<rparr>))"

text \<open>A call of \<^verbatim>\<open>createClient(config)\<close>, up to its return or its suspension.\<close>

definition createClient :: "config \<Rightarrow> module_state \<Rightarrow> create_step \<times> module_state" where
  "createClient cfg ms =
     (case instance_var ms of
        Some h \<Rightarrow> (Returned h, ms)
      | None \<Rightarrow>
          (case reconnectTimeouts (maxReconnectAttempts_of cfg) of
             Inl err \<Rightarrow> (Threw err, ms)
           | Inr table \<Rightarrow>
               (let ms1 = ms\<lparr>window_listeners := window_listeners ms + 3,
                              idle_timers := idle_timers ms + 1\<rparr>
                in if token ms1 = None \<or> token ms1 = Some []
                   then (Awaiting cfg, ms1\<lparr>token_requests := token_requests ms1 + 1\<rparr>)
                   else (case createClient_finish cfg ms1 of (h, ms2) \<Rightarrow> (Returned h, ms2)))))"

text \<open>
  The token request of a suspended call is answered with \<open>t\<close>: the call stores the token
  and runs to its end.
\<close>

definition createClient_resume :: "config \<Rightarrow> string \<Rightarrow> module_state \<Rightarrow> nat \<times> module_state" where
  "createClient_resume cfg t ms = createClient_finish cfg (ms\<lparr>token := Some t\<rparr>)"

section \<open>Values for the concrete instances\<close>

text \<open>
  A small environment: the serializer is given on the three messages the instances use
  and refuses a \<^verbatim>\<open>BigInt\<close> and a cyclic object, as \<^verbatim>\<open>JSON.stringify\<close> does;
  the parser accepts the text \<open>1\<close> only (on every text the instances use, \<open>1\<close>, \<open>hello\<close>,
  the empty text and \<open>[object Blob]\<close>, it does what \<^verbatim>\<open>JSON.parse\<close> does), the socket stays
  open after a frame, and no callback does anything but return.
\<close>

definition demo_stringify :: "json \<Rightarrow> string option" where
  "demo_stringify m =
     (if serializable m
      then Some (if m = JNumber 1 then ''1'' else if m = JNumber 2 then ''2''
                 else if m = JNumber 3 then ''3'' else ''null'')
      else None)"

definition demo_parse :: "string \<Rightarrow> json option" where
  "demo_parse s = (if s = ''1'' then Some (JNumber 1) else None)"

definition demo_env :: env where
  "demo_env =
     \<lparr>JSON_stringify = demo_stringify, JSON_parse = demo_parse,
      after_send = (\<lambda>w. OPEN), callback = (\<lambda>l. [])\<rparr>"

definition demo_config :: config where
  "demo_config =
     \<lparr>url = ''ws://host/ws'', maxQueueSize = None, maxReconnectAttempts = None,
      idleTimeout = None, autoConnect = None\<rparr>"

definition socket_in :: "ready_state \<Rightarrow> websocket" where
  "socket_in r = \<lparr>readyState = r, sent = [], onceListeners = []\<rparr>"

definition client_in :: "ready_state \<Rightarrow> client" where
  "client_in r = new_client\<lparr>ws := Some (socket_in r)\<rparr>"

text \<open>A queue of three messages behind an open socket, and two open-listeners.\<close>

definition demo_queued :: client where
  "demo_queued =
     (client_in OPEN)\<lparr>messageQueue := [JNumber 1, JNumber 2, JNumber 3],
        listeners := (\<lambda>kind. if kind = open_ev then [7, 8] else [])\<rparr>"

text \<open>A host that starts closing the socket once two frames have been written.\<close>

definition closing_env :: env where
  "closing_env = demo_env\<lparr>after_send := (\<lambda>w. if length (sent w) < 2 then OPEN else CLOSING)\<rparr>"

text \<open>
  Two message-listeners, registered in the order 1, 2; the body of listener 1 calls its
  own unsubscribe function, the body of listener 2 does nothing.
\<close>

definition unsubscribing_env :: env where
  "unsubscribing_env =
     demo_env\<lparr>callback := (\<lambda>l. if l = 1 then [Unsubscribe message_ev 1] else [])\<rparr>"

definition two_listeners :: client where
  "two_listeners = onMessage 2 (onMessage 1 new_client)"

text \<open>A callback that throws, whatever it is called with.\<close>

definition throwing_env :: env where
  "throwing_env = demo_env\<lparr>callback := (\<lambda>l. [Throw])\<rparr>"

text \<open>The module before any call, with no token stored; and a second configuration.\<close>

definition fresh_module :: module_state where
  "fresh_module =
     \<lparr>instance_var = None, token = None, clients = [], window_listeners = 0, idle_timers = 0,
      token_requests = 0\<rparr>"

definition other_config :: config where
  "other_config = demo_config\<lparr>url := ''ws://other/ws'', maxQueueSize := Some 3\<rparr>"

section \<open>Auxiliary notions\<close>

text \<open>
  A publish reads and writes the registries and the record of invocations only: the
  socket, the queue, the pending timeouts, the console and the promises pass through it
  untouched. To say so, \<open>with_io\<close> replaces these five components of a state.
\<close>

definition with_io ::
  "websocket option \<Rightarrow> json list \<Rightarrow> (js_number \<times> nat) list \<Rightarrow> nat \<Rightarrow>
   promise_state list \<Rightarrow> client \<Rightarrow> client" where
  "with_io w q t c p st =
     st\<lparr>ws := w, messageQueue := q, timeouts := t, console := c, promises := p\<rparr>"

text \<open>The promise that a one-shot listener settles.\<close>

fun target :: "settle \<Rightarrow> nat" where
  "target (Resolve p) = p"
| "target (Reject p) = p"

text \<open>
  In every state that the operations produce, a one-shot listener on the socket belongs
  to a promise that exists: \<^verbatim>\<open>isReady\<close> adds listeners for the promise it has just made.
\<close>

definition listeners_known :: "client \<Rightarrow> bool" where
  "listeners_known st =
     (case ws st of
        None \<Rightarrow> True
      | Some w \<Rightarrow> list_all (\<lambda>l. target (snd l) < length (promises st)) (onceListeners w))"

text \<open>A write of the drain succeeds on a truthy message that serializes, on an open socket.\<close>

definition writable :: "env \<Rightarrow> json \<Rightarrow> ready_state \<Rightarrow> bool" where
  "writable e m r \<longleftrightarrow> truthy m \<and> r = OPEN \<and> JSON_stringify e m \<noteq> None"

section \<open>The backoff schedule\<close>

lemma pow2_times_1000_less: "i \<le> n \<Longrightarrow> (2::int) ^ i * 1000 < 2 ^ (n + 10)"
proof -
  assume "i \<le> n"
  then have "(2::int) ^ i \<le> 2 ^ n" by (rule power_increasing) simp
  then have "(2::int) ^ i * 1000 \<le> 2 ^ n * 1000" by simp
  also have "\<dots> < (2::int) ^ n * 2 ^ 10" by simp
  finally show ?thesis by (simp only: power_add)
qed

lemma pow2_times_1000_ge: "n \<le> i \<Longrightarrow> (2::int) ^ (n + 9) \<le> 2 ^ i * 1000"
proof -
  assume "n \<le> i"
  then have "(2::int) ^ n \<le> 2 ^ i" by (rule power_increasing) simp
  then have "(2::int) ^ n * 2 ^ 9 \<le> 2 ^ i * 2 ^ 9" by simp
  also have "\<dots> \<le> (2::int) ^ i * 1000" by simp
  finally show ?thesis by (simp only: power_add)
qed

lemma js_times_pow2:
  "js_times (Math_pow2 i) 1000 = (if i \<le> 1014 then Finite (2 ^ i * 1000) else Infinity)"
proof (cases "i \<le> 1014")
  case True
  from pow2_times_1000_less [OF True] show ?thesis
    using True by (simp add: js_times_def Math_pow2_def)
next
  case False
  then have "1015 \<le> i" by simp
  from pow2_times_1000_ge [OF this] show ?thesis
    using False by (simp add: js_times_def Math_pow2_def)
qed

lemma ToLength_below: "n < 2 ^ 32 \<Longrightarrow> ToLength n = nat \<lfloor>n\<rfloor> \<and> ToLength n \<le> 2 ^ 32 - 1"
proof -
  assume n: "n < 2 ^ 32"
  then have "\<lfloor>n\<rfloor> < 4294967296" by (simp add: floor_less_iff)
  then have "nat \<lfloor>n\<rfloor> \<le> 4294967295" by linarith
  then have b: "nat \<lfloor>n\<rfloor> \<le> 2 ^ 32 - 1" by simp
  show ?thesis
  proof (cases "n \<le> 0")
    case True
    then have "\<lfloor>n\<rfloor> \<le> 0" by (simp add: floor_le_iff)
    with True show ?thesis by (simp add: ToLength_def)
  next
    case False
    with b show ?thesis by (simp add: ToLength_def)
  qed
qed

lemma ToLength_above: "2 ^ 32 \<le> n \<Longrightarrow> 2 ^ 32 - 1 < ToLength n"
proof -
  assume n: "2 ^ 32 \<le> n"
  then have "4294967296 \<le> \<lfloor>n\<rfloor>" by (simp add: le_floor_iff)
  then have "4294967296 \<le> nat \<lfloor>n\<rfloor>" by linarith
  then have "(2::nat) ^ 32 \<le> nat \<lfloor>n\<rfloor>" by simp
  moreover have "0 < n" using n by (rule less_le_trans [rotated]) simp
  ultimately show ?thesis by (simp add: ToLength_def)
qed

lemma reconnectTimeouts_below:
  "n < 2 ^ 32 \<Longrightarrow>
   reconnectTimeouts n = Inr (map (\<lambda>i. js_times (Math_pow2 i) 1000) [0..<nat \<lfloor>n\<rfloor>])"
  using ToLength_below [of n] by (simp add: reconnectTimeouts_def Let_def)

lemma reconnectTimeouts_above: "2 ^ 32 \<le> n \<Longrightarrow> reconnectTimeouts n = Inl RangeError"
  using ToLength_above [of n] by (simp add: reconnectTimeouts_def Let_def)

lemma reconnectTimeouts_5:
  "reconnectTimeouts 5 =
     Inr [Finite 1000, Finite 2000, Finite 4000, Finite 8000, Finite 16000]"
  by (simp add: reconnectTimeouts_below js_times_pow2 upt_rec)

text \<open>
  C6, as stated, fails: with 1016 attempts configured, the entry at index 1015 is not
  \<open>2 ^ 1015 * 1000\<close>. \<^verbatim>\<open>Math.pow(2, 1015)\<close> is a finite double, but its product with 1000 is
  beyond the largest double and the entry is \<^verbatim>\<open>Infinity\<close>.
\<close>

theorem C6_backoff_counterexample:
  "maxReconnectAttempts_of (demo_config\<lparr>maxReconnectAttempts := Some 1016\<rparr>) = 1016
   \<and> map_sum id length (reconnectTimeouts 1016) = Inr 1016
   \<and> map_sum id (\<lambda>table. table ! 1015) (reconnectTimeouts 1016) = Inr Infinity
   \<and> map_sum id (\<lambda>table. table ! 1015) (reconnectTimeouts 1016) \<noteq>
        Inr (Finite (2 ^ 1015 * 1000))"
  by (simp add: reconnectTimeouts_below js_times_pow2 maxReconnectAttempts_of_def
      or_default_def demo_config_def)

text \<open>
  C6, amended: for every number of attempts \<open>n\<close> below \<open>2 ^ 32\<close> the schedule is built and
  has as many entries as the integer part of \<open>n\<close> (none when \<open>n\<close> is negative); its entry
  at every index \<open>i\<close> up to 1014 is \<open>2 ^ i * 1000\<close>, and every later entry is \<^verbatim>\<open>Infinity\<close>.
  For \<open>n\<close> from \<open>2 ^ 32\<close> on, \<^verbatim>\<open>Array.from\<close> throws a \<^verbatim>\<open>RangeError\<close> and there is no schedule.
  An absent option, \<open>0\<close> and \<open>5\<close> all give five attempts, and for five attempts the
  schedule is \<open>[1000, 2000, 4000, 8000, 16000]\<close>.
\<close>

theorem C6_backoff_schedule:
  "(n < 2 ^ 32 \<longrightarrow>
      (\<exists>table. reconnectTimeouts n = Inr table
         \<and> length table = nat \<lfloor>n\<rfloor>
         \<and> (\<forall>i. i < length table \<and> i \<le> 1014 \<longrightarrow> table ! i = Finite (2 ^ i * 1000))
         \<and> (\<forall>i. i < length table \<and> 1014 < i \<longrightarrow> table ! i = Infinity)))
   \<and> (2 ^ 32 \<le> n \<longrightarrow> reconnectTimeouts n = Inl RangeError)
   \<and> (maxReconnectAttempts cfg \<in> {None, Some 0, Some 5} \<longrightarrow>
        reconnectTimeouts (maxReconnectAttempts_of cfg) =
          Inr [Finite 1000, Finite 2000, Finite 4000, Finite 8000, Finite 16000])"
proof -
  have "maxReconnectAttempts_of cfg = 5" if "maxReconnectAttempts cfg \<in> {None, Some 0, Some 5}"
    using that by (auto simp: maxReconnectAttempts_of_def or_default_def)
  then show ?thesis
    by (simp add: reconnectTimeouts_below reconnectTimeouts_above reconnectTimeouts_5
        js_times_pow2)
qed

theorem C6_backoff_schedule_witness:
  "(1016::rat) < 2 ^ 32
   \<and> map_sum id length (reconnectTimeouts 1016) = Inr 1016
   \<and> map_sum id (\<lambda>table. table ! 3) (reconnectTimeouts 1016) = Inr (Finite 8000)
   \<and> map_sum id (\<lambda>table. table ! 1015) (reconnectTimeouts 1016) = Inr Infinity
   \<and> map_sum id length (reconnectTimeouts (5 / 2)) = Inr 2
   \<and> (2::rat) ^ 32 \<le> 4294967296
   \<and> reconnectTimeouts 4294967296 = Inl RangeError
   \<and> maxReconnectAttempts demo_config = None
   \<and> reconnectTimeouts (maxReconnectAttempts_of demo_config) =
        Inr [Finite 1000, Finite 2000, Finite 4000, Finite 8000, Finite 16000]"
proof -
  have c: "maxReconnectAttempts demo_config = None"
    by (simp add: demo_config_def)
  have "\<lfloor>5 / 2 :: rat\<rfloor> = 2" by (simp add: floor_eq_iff)
  then have b: "(1016::rat) < 2 ^ 32" "(5 / 2 :: rat) < 2 ^ 32" "(2::rat) ^ 32 \<le> 4294967296"
    "nat \<lfloor>5 / 2 :: rat\<rfloor> = 2"
    by simp_all
  from C6_backoff_schedule [of 1016 demo_config] b(1)
  obtain t where t: "reconnectTimeouts 1016 = Inr t" "length t = 1016"
    "\<forall>i. i < length t \<and> i \<le> 1014 \<longrightarrow> t ! i = Finite (2 ^ i * 1000)"
    "\<forall>i. i < length t \<and> 1014 < i \<longrightarrow> t ! i = Infinity"
    by auto
  from t(2,3) have t3: "t ! 3 = Finite (2 ^ 3 * 1000)" by simp
  from t(2,4) have t1015: "t ! 1015 = Infinity" by simp
  from C6_backoff_schedule [of "5 / 2" demo_config] b(2,4)
  obtain t' where t': "reconnectTimeouts (5 / 2) = Inr t'" "length t' = 2"
    by auto
  from C6_backoff_schedule [of 4294967296 demo_config] b(3)
  have r: "reconnectTimeouts 4294967296 = Inl RangeError" by simp
  from C6_backoff_schedule [of 0 demo_config] c
  have f: "reconnectTimeouts (maxReconnectAttempts_of demo_config) =
        Inr [Finite 1000, Finite 2000, Finite 4000, Finite 8000, Finite 16000]"
    by simp
  from t(1,2) t3 t1015 t' r f c show ?thesis by simp
qed

section \<open>What send does\<close>

lemma getStatus_CONNECTED: "getStatus st = CONNECTED \<longleftrightarrow> ws_readyState st = Some OPEN"
  by (simp add: getStatus_def ws_readyState_def split: option.splits ready_state.splits)

lemma getStatus_CLOSED: "getStatus st = State_CLOSED \<longleftrightarrow> ws_readyState st = Some CLOSED"
  by (simp add: getStatus_def ws_readyState_def split: option.splits ready_state.splits)

lemma send_open:
  assumes "ws st = Some w" "readyState w = OPEN" "JSON_stringify e m = Some d"
  shows "send e cfg m st =
     (None, st\<lparr>ws := Some (w\<lparr>sent := sent w @ [d],
        readyState := after_send e (w\<lparr>sent := sent w @ [d]\<rparr>)\<rparr>)\<rparr>)"
  using assms
  by (simp add: send_def ws_readyState_def ws_send_json_def ws_send_def socket_send_def Let_def)

lemma send_open_throws:
  assumes "ws_readyState st = Some OPEN" "JSON_stringify e m = None"
  shows "send e cfg m st = (Some TypeError, st)"
  using assms by (simp add: send_def ws_send_json_def)

lemma send_enqueue:
  assumes "ws_readyState st \<noteq> Some OPEN" "ws_readyState st \<noteq> Some CLOSED"
  shows "send e cfg m st =
     (None, st\<lparr>messageQueue :=
        (if maxQueueSize_of cfg < int (length (messageQueue st @ [m]))
         then tl (messageQueue st @ [m]) else messageQueue st @ [m])\<rparr>)"
  using assms
  by (simp add: send_def queuePush_def queueShift_def Let_def split: list.splits)

lemma send_closed:
  assumes "ws_readyState st = Some CLOSED"
  shows "send e cfg m st = (None, st)"
  using assms by (simp add: send_def)

text \<open>
  The three branches of \<^verbatim>\<open>send\<close>, for every message and every state: in the state
  Connected a message that serializes is handed to the socket at once and the queue is
  left alone; in a state that is neither Connected nor Closed the message is appended to
  the queue and, when the queue is then longer than \<open>maxQueueSize\<close>, the oldest entry is
  dropped; in the state Closed nothing changes. Outside the state Connected nothing is
  thrown.
\<close>

lemma send_branches:
  "(getStatus st = CONNECTED \<and> JSON_stringify e m = Some d \<longrightarrow>
      (\<exists>w. ws st = Some w \<and>
         send e cfg m st =
           (None, st\<lparr>ws := Some (w\<lparr>sent := sent w @ [d],
              readyState := after_send e (w\<lparr>sent := sent w @ [d]\<rparr>)\<rparr>)\<rparr>)))
   \<and> (getStatus st \<noteq> CONNECTED \<and> getStatus st \<noteq> State_CLOSED \<longrightarrow>
        send e cfg m st =
          (None, st\<lparr>messageQueue :=
             (if maxQueueSize_of cfg < int (length (messageQueue st @ [m]))
              then tl (messageQueue st @ [m]) else messageQueue st @ [m])\<rparr>))
   \<and> (getStatus st = State_CLOSED \<longrightarrow> send e cfg m st = (None, st))"
proof (intro conjI impI)
  assume a: "getStatus st = CONNECTED \<and> JSON_stringify e m = Some d"
  then obtain w where "ws st = Some w" "readyState w = OPEN"
    by (auto simp: getStatus_CONNECTED ws_readyState_def)
  with a show "\<exists>w. ws st = Some w \<and>
         send e cfg m st =
           (None, st\<lparr>ws := Some (w\<lparr>sent := sent w @ [d],
              readyState := after_send e (w\<lparr>sent := sent w @ [d]\<rparr>)\<rparr>)\<rparr>)"
    by (simp add: send_open)
next
  assume "getStatus st \<noteq> CONNECTED \<and> getStatus st \<noteq> State_CLOSED"
  then show "send e cfg m st =
          (None, st\<lparr>messageQueue :=
             (if maxQueueSize_of cfg < int (length (messageQueue st @ [m]))
              then tl (messageQueue st @ [m]) else messageQueue st @ [m])\<rparr>)"
    by (intro send_enqueue) (simp_all add: getStatus_CONNECTED getStatus_CLOSED)
next
  assume "getStatus st = State_CLOSED"
  then show "send e cfg m st = (None, st)"
    by (simp add: send_closed getStatus_CLOSED)
qed

text \<open>
  C1 asks that \<^verbatim>\<open>send\<close> never raises an error to its caller, for every message and every
  state. In the state Connected the code does otherwise on a message that
  \<^verbatim>\<open>JSON.stringify\<close> refuses, here the object \<^verbatim>\<open>{ id: 1n }\<close>: the \<^verbatim>\<open>TypeError\<close> of
  \<^verbatim>\<open>JSON.stringify(message)\<close> escapes from \<^verbatim>\<open>send\<close>, nothing is written and nothing is
  queued. The same write inside the drain of \<^verbatim>\<open>ws.onopen\<close> stands in a \<^verbatim>\<open>try\<close> block; when
  the socket is still connecting, the same message is queued without an error.
\<close>

theorem C1_send_throws_on_unserializable_message:
  "getStatus (client_in OPEN) = CONNECTED
   \<and> \<not> serializable (JObject [(''id'', JBigInt 1)])
   \<and> JSON_stringify demo_env (JObject [(''id'', JBigInt 1)]) = None
   \<and> send demo_env demo_config (JObject [(''id'', JBigInt 1)]) (client_in OPEN) =
        (Some TypeError, client_in OPEN)
   \<and> send demo_env demo_config (JObject [(''id'', JBigInt 1)]) (client_in CONNECTING) =
        (None, (client_in CONNECTING)\<lparr>messageQueue := [JObject [(''id'', JBigInt 1)]]\<rparr>)"
proof -
  have s: "JSON_stringify demo_env (JObject [(''id'', JBigInt 1)]) = None"
    by (simp add: demo_env_def demo_stringify_def)
  have o: "ws_readyState (client_in OPEN) = Some OPEN"
    "ws_readyState (client_in CONNECTING) \<noteq> Some OPEN"
    "ws_readyState (client_in CONNECTING) \<noteq> Some CLOSED"
    "messageQueue (client_in CONNECTING) = []"
    by (simp_all add: ws_readyState_def client_in_def socket_in_def new_client_def)
  have q: "maxQueueSize_of demo_config = 10"
    by (simp add: maxQueueSize_of_def or_default_def demo_config_def)
  show ?thesis
    using s o q
    by (simp add: send_open_throws send_enqueue getStatus_CONNECTED)
qed

section \<open>The bound of the outbound queue\<close>






section \<open>The drain of ws.onopen\<close>

lemma drain_empty: "messageQueue st = [] \<Longrightarrow> drain e st = st"
  by (subst drain.simps) simp

lemma drain_fail_no_socket:
  assumes "messageQueue st = m # q" "ws st = None"
  shows "drain e st = st\<lparr>console := console st + 1\<rparr>"
  using assms
  by (subst drain.simps, cases st)
     (auto simp add: queueShift_def try_write_def queueUnshift_def ws_readyState_def
        ws_send_json_def ws_send_def split: option.splits)

lemma drain_fail:
  assumes "messageQueue st = m # q" "ws st = Some w" "\<not> writable e m (readyState w)"
  shows "drain e st = st\<lparr>console := console st + 1\<rparr>"
  using assms
  by (subst drain.simps, cases st)
     (auto simp add: queueShift_def try_write_def queueUnshift_def ws_readyState_def
        ws_send_json_def writable_def)

lemma drain_write:
  assumes "messageQueue st = m # q" "truthy m" "ws st = Some w" "readyState w = OPEN"
    and "JSON_stringify e m = Some d"
  shows "drain e st =
     drain e (st\<lparr>messageQueue := q,
        ws := Some (w\<lparr>sent := sent w @ [d],
          readyState := after_send e (w\<lparr>sent := sent w @ [d]\<rparr>)\<rparr>)\<rparr>)"
  using assms
  by (subst drain.simps)
     (simp add: queueShift_def try_write_def ws_readyState_def ws_send_json_def ws_send_def
        socket_send_def Let_def)

text \<open>
  What a drain does, for every queue and every behaviour of the host: it writes the
  serializations of a prefix of the queue, in order, and leaves the rest; it reports on
  the console exactly when the prefix is not the whole queue, and then the first entry
  left is one whose write failed (it is falsy, or the socket is not open for it, or it
  does not serialize).
\<close>

lemma drain_prefix:
  assumes "ws st = Some w"
  shows "\<exists>k w' frames. k \<le> length (messageQueue st)
     \<and> ws (drain e st) = Some w'
     \<and> map (JSON_stringify e) (take k (messageQueue st)) = map Some frames
     \<and> sent w' = sent w @ frames
     \<and> messageQueue (drain e st) = drop k (messageQueue st)
     \<and> console (drain e st) = console st + (if k < length (messageQueue st) then 1 else 0)
     \<and> (k < length (messageQueue st) \<longrightarrow>
          \<not> writable e (messageQueue st ! k) (readyState w'))
     \<and> listeners (drain e st) = listeners st \<and> invoked (drain e st) = invoked st
     \<and> timeouts (drain e st) = timeouts st \<and> promises (drain e st) = promises st
     \<and> onceListeners w' = onceListeners w"
  using assms
proof (induction "messageQueue st" arbitrary: st w)
  case Nil
  then have "drain e st = st" by (simp add: drain_empty)
  with Nil show ?case by simp
next
  case (Cons m q)
  show ?case
  proof (cases "writable e m (readyState w)")
    case False
    from drain_fail [OF Cons.hyps(2) [symmetric] Cons.prems False]
    have d: "drain e st = st\<lparr>console := console st + 1\<rparr>" .
    have "0 \<le> length (messageQueue st)
     \<and> ws (drain e st) = Some w
     \<and> map (JSON_stringify e) (take 0 (messageQueue st)) = map Some []
     \<and> sent w = sent w @ []
     \<and> messageQueue (drain e st) = drop 0 (messageQueue st)
     \<and> console (drain e st) = console st + (if 0 < length (messageQueue st) then 1 else 0)
     \<and> (0 < length (messageQueue st) \<longrightarrow>
          \<not> writable e (messageQueue st ! 0) (readyState w))
     \<and> listeners (drain e st) = listeners st \<and> invoked (drain e st) = invoked st
     \<and> timeouts (drain e st) = timeouts st \<and> promises (drain e st) = promises st
     \<and> onceListeners w = onceListeners w"
      using d False Cons.prems Cons.hyps(2) [symmetric] by auto
    then show ?thesis by blast
  next
    case True
    then obtain d where w: "truthy m" "readyState w = OPEN" "JSON_stringify e m = Some d"
      by (auto simp: writable_def)
    let ?w = "w\<lparr>sent := sent w @ [d],
          readyState := after_send e (w\<lparr>sent := sent w @ [d]\<rparr>)\<rparr>"
    let ?st = "st\<lparr>messageQueue := q, ws := Some ?w\<rparr>"
    have dr: "drain e st = drain e ?st"
      by (rule drain_write [OF Cons.hyps(2) [symmetric] w(1) Cons.prems w(2,3)])
    have "q = messageQueue ?st" "ws ?st = Some ?w" by simp_all
    from Cons.hyps(1) [OF this]
    obtain k w' frames where k: "k \<le> length q" "ws (drain e ?st) = Some w'"
      "map (JSON_stringify e) (take k q) = map Some frames"
      "sent w' = sent ?w @ frames"
      "messageQueue (drain e ?st) = drop k q"
      "console (drain e ?st) = console st + (if k < length q then 1 else 0)"
      "k < length q \<longrightarrow> \<not> writable e (q ! k) (readyState w')"
      "listeners (drain e ?st) = listeners st" "invoked (drain e ?st) = invoked st"
      "timeouts (drain e ?st) = timeouts st" "promises (drain e ?st) = promises st"
      "onceListeners w' = onceListeners w"
      by auto
    have "Suc k \<le> length (messageQueue st)
     \<and> ws (drain e st) = Some w'
     \<and> map (JSON_stringify e) (take (Suc k) (messageQueue st)) = map Some (d # frames)
     \<and> sent w' = sent w @ (d # frames)
     \<and> messageQueue (drain e st) = drop (Suc k) (messageQueue st)
     \<and> console (drain e st) = console st + (if Suc k < length (messageQueue st) then 1 else 0)
     \<and> (Suc k < length (messageQueue st) \<longrightarrow>
          \<not> writable e (messageQueue st ! Suc k) (readyState w'))
     \<and> listeners (drain e st) = listeners st \<and> invoked (drain e st) = invoked st
     \<and> timeouts (drain e st) = timeouts st \<and> promises (drain e st) = promises st
     \<and> onceListeners w' = onceListeners w"
      using k dr w(3) Cons.hyps(2) [symmetric] by simp
    then show ?thesis by blast
  qed
qed

text \<open>
  No write fails, for one, when every queued message is truthy and serializes, the
  socket is open and the host leaves it open after each frame.
\<close>

lemma drain_no_failure:
  assumes "ws st = Some w" "readyState w = OPEN" "\<forall>w. after_send e w = OPEN"
    and "list_all (\<lambda>m. truthy m \<and> JSON_stringify e m \<noteq> None) (messageQueue st)"
  shows "console (drain e st) = console st"
  using assms
proof (induction "messageQueue st" arbitrary: st w)
  case Nil
  then show ?case by (simp add: drain_empty)
next
  case (Cons m q)
  from Cons.prems(4) have "list_all (\<lambda>m. truthy m \<and> JSON_stringify e m \<noteq> None) (m # q)"
    by (simp only: Cons.hyps(2))
  then obtain d where t: "truthy m" "JSON_stringify e m = Some d"
    "list_all (\<lambda>m. truthy m \<and> JSON_stringify e m \<noteq> None) q"
    by auto
  let ?w = "w\<lparr>sent := sent w @ [d],
          readyState := after_send e (w\<lparr>sent := sent w @ [d]\<rparr>)\<rparr>"
  let ?st = "st\<lparr>messageQueue := q, ws := Some ?w\<rparr>"
  have d: "drain e st = drain e ?st"
    by (rule drain_write [OF Cons.hyps(2) [symmetric] t(1) Cons.prems(1,2) t(2)])
  have "console (drain e ?st) = console ?st"
    by (rule Cons.hyps(1) [of ?st ?w]) (use Cons.prems(3) t(3) in simp_all)
  with d show ?case by simp
qed

section \<open>Publishing to listeners\<close>

lemma drain_others:
  "listeners (drain e st) = listeners st \<and> invoked (drain e st) = invoked st
   \<and> timeouts (drain e st) = timeouts st \<and> promises (drain e st) = promises st"
proof (cases "ws st")
  case None
  show ?thesis
  proof (cases "messageQueue st")
    case Nil
    then show ?thesis by (simp add: drain_empty)
  next
    case (Cons m q)
    from drain_fail_no_socket [OF Cons None] show ?thesis by simp
  qed
next
  case (Some w)
  from drain_prefix [OF this, of e] show ?thesis by blast
qed

lemma removeListener_with_io:
  "removeListener kind l (with_io w q t c p st) = with_io w q t c p (removeListener kind l st)"
  by (simp add: removeListener_def with_io_def Let_def)

lemma run_body_with_io:
  "run_body es (with_io w q t c p st) = apsnd (with_io w q t c p) (run_body es st)"
proof (induction es st rule: run_body.induct)
  case (1 st)
  show ?case by simp
next
  case (2 kind l es st)
  then show ?case by (simp add: removeListener_with_io)
next
  case (3 es st)
  show ?case by simp
qed

lemma call_listener_with_io:
  "call_listener e l arg (with_io w q t c p st) = apsnd (with_io w q t c p) (call_listener e l arg st)"
proof -
  have "(with_io w q t c p st)\<lparr>invoked := invoked (with_io w q t c p st) @ [(l, arg)]\<rparr> =
      with_io w q t c p (st\<lparr>invoked := invoked st @ [(l, arg)]\<rparr>)"
    by (simp add: with_io_def)
  then show ?thesis by (simp add: call_listener_def run_body_with_io)
qed

lemma forEach_from_with_io:
  "forEach_from e kind arg k len (with_io w q t c p st) =
     apsnd (with_io w q t c p) (forEach_from e kind arg k len st)"
proof (induction e kind arg k len st rule: forEach_from.induct)
  case (1 e kind arg k len st)
  have l: "listeners (with_io w q t c p st) = listeners st" by (simp add: with_io_def)
  show ?case
  proof (cases "k < len")
    case False
    then show ?thesis by (simp add: forEach_from.simps [of e kind arg k len])
  next
    case True
    show ?thesis
    proof (cases "k < length (listeners st kind)")
      case False
      with True 1(2) l show ?thesis by (simp add: forEach_from.simps [of e kind arg k len])
    next
      case inside: True
      obtain ex st' where c: "call_listener e (listeners st kind ! k) arg st = (ex, st')"
        by (cases "call_listener e (listeners st kind ! k) arg st")
      show ?thesis
      proof (cases ex)
        case None
        with 1(1) [OF True inside c [symmetric]] c True inside l show ?thesis
          by (simp add: call_listener_with_io forEach_from.simps [of e kind arg k len])
      next
        case (Some err)
        with c True inside l show ?thesis
          by (simp add: call_listener_with_io forEach_from.simps [of e kind arg k len])
      qed
    qed
  qed
qed

lemma forEach_with_io:
  "forEach e kind arg (with_io w q t c p st) = apsnd (with_io w q t c p) (forEach e kind arg st)"
proof -
  have "listeners (with_io w q t c p st) = listeners st" by (simp add: with_io_def)
  then show ?thesis by (simp add: forEach_def forEach_from_with_io)
qed

lemma onopen_forEach:
  "onopen e st =
     apsnd (with_io (ws (drain e st)) (messageQueue (drain e st)) (timeouts (drain e st))
        (console (drain e st)) (promises (drain e st)))
       (forEach e open_ev NoArg st)"
proof -
  have "drain e st =
      with_io (ws (drain e st)) (messageQueue (drain e st)) (timeouts (drain e st))
        (console (drain e st)) (promises (drain e st)) st"
    using drain_others [of e st] by (simp add: with_io_def)
  then have "onopen e st = forEach e open_ev NoArg
      (with_io (ws (drain e st)) (messageQueue (drain e st)) (timeouts (drain e st))
        (console (drain e st)) (promises (drain e st)) st)"
    by (simp add: onopen_def)
  then show ?thesis by (simp only: forEach_with_io)
qed

text \<open>
  Listeners whose bodies neither unsubscribe nor throw are all invoked, once each, in
  the order of their registration.
\<close>

lemma forEach_from_plain:
  assumes "\<forall>l \<in> set (listeners st kind). callback e l = []"
    and "len = length (listeners st kind)" "k \<le> len"
  shows "forEach_from e kind arg k len st =
     (None, st\<lparr>invoked := invoked st @ map (\<lambda>l. (l, arg)) (drop k (listeners st kind))\<rparr>)"
  using assms
proof (induction e kind arg k len st rule: forEach_from.induct)
  case (1 e kind arg k len st)
  show ?case
  proof (cases "k < len")
    case False
    with 1(4,5) show ?thesis by (subst forEach_from.simps) simp
  next
    case True
    then have inside: "k < length (listeners st kind)" using 1(4) by simp
    let ?st = "st\<lparr>invoked := invoked st @ [(listeners st kind ! k, arg)]\<rparr>"
    have "callback e (listeners st kind ! k) = []" using inside 1(3) by simp
    then have c: "call_listener e (listeners st kind ! k) arg st = (None, ?st)"
      by (simp add: call_listener_def)
    have "forEach_from e kind arg (Suc k) len ?st =
        (None, ?st\<lparr>invoked := invoked ?st @ map (\<lambda>l. (l, arg)) (drop (Suc k) (listeners ?st kind))\<rparr>)"
      using 1(1) [OF True inside c [symmetric]] 1(3,4) True by simp
    then show ?thesis using True inside c
      by (subst forEach_from.simps) (simp add: Cons_nth_drop_Suc [symmetric])
  qed
qed

lemma forEach_plain:
  assumes "\<forall>l \<in> set (listeners st kind). callback e l = []"
  shows "forEach e kind arg st =
     (None, st\<lparr>invoked := invoked st @ map (\<lambda>l. (l, arg)) (listeners st kind)\<rparr>)"
  using forEach_from_plain [OF assms, of "length (listeners st kind)" 0 arg]
  by (simp add: forEach_def)

text \<open>
  A publish only adds to the record of invocations, whatever the listeners do.
\<close>

lemma run_body_invoked: "invoked (snd (run_body es st)) = invoked st"
  by (induction es st rule: run_body.induct) (simp_all add: removeListener_def Let_def)




section \<open>The open handler\<close>

text \<open>
  The \<^verbatim>\<open>catch\<close> block of the drain reports each failed write on the console and nothing
  else of the handler does, so "no write fails" is: the drain leaves the console as it
  was.

  C3: when no write fails, every queued message has been serialized and the socket has
  received these serializations, in the order of the queue, and the queue is empty; and whatever the drain did,
  the publish to the open-listeners that follows it throws and invokes exactly as it
  would have done on the state before the drain, leaving the queue as the drain left it.
  In particular, listeners that neither unsubscribe nor throw are all invoked, in the
  order of registration.
\<close>

theorem C3_onopen_drains_queue:
  "(ws st = Some w \<and> console (drain e st) = console st \<longrightarrow>
      messageQueue (snd (onopen e st)) = []
      \<and> (\<exists>w' frames. ws (snd (onopen e st)) = Some w'
            \<and> map (JSON_stringify e) (messageQueue st) = map Some frames
            \<and> sent w' = sent w @ frames))
   \<and> fst (onopen e st) = fst (forEach e open_ev NoArg st)
   \<and> invoked (snd (onopen e st)) = invoked (snd (forEach e open_ev NoArg st))
   \<and> messageQueue (snd (onopen e st)) = messageQueue (drain e st)
   \<and> ((\<forall>l \<in> set (listeners st open_ev). callback e l = []) \<longrightarrow>
        fst (onopen e st) = None
        \<and> invoked (snd (onopen e st)) =
            invoked st @ map (\<lambda>l. (l, NoArg)) (listeners st open_ev))"
proof -
  let ?d = "drain e st"
  have o: "onopen e st =
      apsnd (with_io (ws ?d) (messageQueue ?d) (timeouts ?d) (console ?d) (promises ?d)) (forEach e open_ev NoArg st)"
    by (rule onopen_forEach)
  have io: "ws (snd (onopen e st)) = ws ?d" "messageQueue (snd (onopen e st)) = messageQueue ?d"
    "invoked (snd (onopen e st)) = invoked (snd (forEach e open_ev NoArg st))"
    "fst (onopen e st) = fst (forEach e open_ev NoArg st)"
    by (simp_all add: o with_io_def)
  have drained: "messageQueue ?d = [] \<and>
      (\<exists>w' frames. ws ?d = Some w'
         \<and> map (JSON_stringify e) (messageQueue st) = map Some frames
         \<and> sent w' = sent w @ frames)"
    if "ws st = Some w" "console ?d = console st"
  proof -
    from drain_prefix [OF that(1), of e]
    obtain k w' frames where k: "k \<le> length (messageQueue st)" "ws ?d = Some w'"
      "map (JSON_stringify e) (take k (messageQueue st)) = map Some frames"
      "sent w' = sent w @ frames"
      "messageQueue ?d = drop k (messageQueue st)"
      "console ?d = console st + (if k < length (messageQueue st) then 1 else 0)"
      by blast
    from k(1,6) that(2) have "k = length (messageQueue st)"
      by (cases "k < length (messageQueue st)") simp_all
    with k show ?thesis by simp
  qed
  have plain: "fst (onopen e st) = None \<and> invoked (snd (onopen e st)) =
      invoked st @ map (\<lambda>l. (l, NoArg)) (listeners st open_ev)"
    if "\<forall>l \<in> set (listeners st open_ev). callback e l = []"
    using forEach_plain [OF that, of NoArg] io by simp
  from drained plain io show ?thesis by simp
qed

text \<open>
  C4: when a write fails (the drain reports on the console), the socket has received the
  serializations of the messages before the failed one and no other, and the queue holds
  the failed message followed by the messages that were behind it, in their order. The
  failed message is one that is falsy, or that finds the socket not open, or that does
  not serialize.
\<close>

theorem C4_drain_stops_at_failure:
  "ws st = Some w \<and> console (drain e st) \<noteq> console st \<longrightarrow>
     (\<exists>k w' frames. k < length (messageQueue st)
        \<and> ws (drain e st) = Some w'
        \<and> map (JSON_stringify e) (take k (messageQueue st)) = map Some frames
        \<and> sent w' = sent w @ frames
        \<and> \<not> (truthy (messageQueue st ! k) \<and> readyState w' = OPEN
               \<and> JSON_stringify e (messageQueue st ! k) \<noteq> None)
        \<and> messageQueue (drain e st) = (messageQueue st ! k) # drop (Suc k) (messageQueue st)
        \<and> messageQueue (snd (onopen e st)) = messageQueue (drain e st))"
proof
  assume a: "ws st = Some w \<and> console (drain e st) \<noteq> console st"
  let ?d = "drain e st"
  from a drain_prefix [of st w e]
  obtain k w' frames where k: "k \<le> length (messageQueue st)" "ws ?d = Some w'"
    "map (JSON_stringify e) (take k (messageQueue st)) = map Some frames"
    "sent w' = sent w @ frames"
    "messageQueue ?d = drop k (messageQueue st)"
    "console ?d = console st + (if k < length (messageQueue st) then 1 else 0)"
    "k < length (messageQueue st) \<longrightarrow> \<not> writable e (messageQueue st ! k) (readyState w')"
    by blast
  from a k(6) have lt: "k < length (messageQueue st)"
    by (cases "k < length (messageQueue st)") simp_all
  have "messageQueue (snd (onopen e st)) = messageQueue ?d"
    by (simp add: onopen_forEach with_io_def)
  with k lt have "k < length (messageQueue st)
        \<and> ws ?d = Some w'
        \<and> map (JSON_stringify e) (take k (messageQueue st)) = map Some frames
        \<and> sent w' = sent w @ frames
        \<and> \<not> (truthy (messageQueue st ! k) \<and> readyState w' = OPEN
               \<and> JSON_stringify e (messageQueue st ! k) \<noteq> None)
        \<and> messageQueue ?d = (messageQueue st ! k) # drop (Suc k) (messageQueue st)
        \<and> messageQueue (snd (onopen e st)) = messageQueue ?d"
    by (simp add: Cons_nth_drop_Suc writable_def)
  then show "\<exists>k w' frames. k < length (messageQueue st)
        \<and> ws ?d = Some w'
        \<and> map (JSON_stringify e) (take k (messageQueue st)) = map Some frames
        \<and> sent w' = sent w @ frames
        \<and> \<not> (truthy (messageQueue st ! k) \<and> readyState w' = OPEN
               \<and> JSON_stringify e (messageQueue st ! k) \<noteq> None)
        \<and> messageQueue ?d = (messageQueue st ! k) # drop (Suc k) (messageQueue st)
        \<and> messageQueue (snd (onopen e st)) = messageQueue ?d"
    by blast
qed

lemma drain_demo_queued:
  "drain demo_env demo_queued =
     demo_queued\<lparr>messageQueue := [],
       ws := Some \<lparr>readyState = OPEN, sent = [''1'', ''2'', ''3''], onceListeners = []\<rparr>\<rparr>"
  by (simp add: drain.simps demo_queued_def client_in_def socket_in_def new_client_def
      queueShift_def try_write_def ws_readyState_def ws_send_json_def ws_send_def socket_send_def
      demo_env_def demo_stringify_def Let_def)

lemma drain_closing_demo_queued:
  "drain closing_env demo_queued =
     demo_queued\<lparr>messageQueue := [JNumber 3], console := 1,
       ws := Some \<lparr>readyState = CLOSING, sent = [''1'', ''2''], onceListeners = []\<rparr>\<rparr>"
  by (simp add: drain.simps demo_queued_def client_in_def socket_in_def new_client_def
      queueShift_def queueUnshift_def try_write_def ws_readyState_def ws_send_json_def ws_send_def
      socket_send_def
      closing_env_def demo_env_def demo_stringify_def Let_def)

theorem C3_onopen_drains_queue_witness:
  "ws demo_queued = Some (socket_in OPEN)
   \<and> console (drain demo_env demo_queued) = console demo_queued
   \<and> messageQueue (snd (onopen demo_env demo_queued)) = []
   \<and> map_option sent (ws (snd (onopen demo_env demo_queued))) = Some [''1'', ''2'', ''3'']
   \<and> fst (onopen demo_env demo_queued) = None
   \<and> invoked (snd (onopen demo_env demo_queued)) = [(7, NoArg), (8, NoArg)]"
proof -
  have a: "ws demo_queued = Some (socket_in OPEN)"
    "console (drain demo_env demo_queued) = console demo_queued"
    by (simp_all add: drain_demo_queued) (simp add: demo_queued_def client_in_def)
  have b: "\<forall>l \<in> set (listeners demo_queued open_ev). callback demo_env l = []"
    by (simp add: demo_env_def)
  have c: "messageQueue demo_queued = [JNumber 1, JNumber 2, JNumber 3]"
    "listeners demo_queued open_ev = [7, 8]" "invoked demo_queued = []"
    by (simp_all add: demo_queued_def client_in_def new_client_def)
  from C3_onopen_drains_queue [of demo_queued "socket_in OPEN" demo_env] a b
  show ?thesis
    by (auto simp: c socket_in_def demo_env_def demo_stringify_def)
qed

theorem C4_drain_stops_at_failure_witness:
  "ws demo_queued = Some (socket_in OPEN)
   \<and> console (drain closing_env demo_queued) \<noteq> console demo_queued
   \<and> map_option sent (ws (drain closing_env demo_queued)) = Some [''1'', ''2'']
   \<and> map_option readyState (ws (drain closing_env demo_queued)) = Some CLOSING
   \<and> messageQueue (drain closing_env demo_queued) = [JNumber 3]
   \<and> messageQueue (snd (onopen closing_env demo_queued)) = [JNumber 3]"
proof -
  have a: "ws demo_queued = Some (socket_in OPEN)"
    "console (drain closing_env demo_queued) \<noteq> console demo_queued"
    by (simp_all add: drain_closing_demo_queued) (simp_all add: demo_queued_def client_in_def new_client_def)
  from C4_drain_stops_at_failure [of demo_queued "socket_in OPEN" closing_env] a
  obtain k w' where "messageQueue (snd (onopen closing_env demo_queued)) =
      messageQueue (drain closing_env demo_queued)"
    by blast
  then show ?thesis using a by (simp add: drain_closing_demo_queued)
qed

section \<open>The close handler\<close>

lemma onclose_forEach:
  "onclose e cfg attempt code st =
     apsnd (with_io (ws st) (messageQueue st)
        (if ws st \<noteq> None \<and> ws_readyState st \<noteq> Some CLOSED
            \<and> of_nat attempt < maxReconnectAttempts_of cfg - 1 \<and> code \<noteq> 1000
         then
           (case reconnectTimeouts (maxReconnectAttempts_of cfg) of
              Inr table \<Rightarrow> timeouts st @ [(table ! attempt, attempt + 1)]
            | Inl err \<Rightarrow> timeouts st)
         else timeouts st)
        (console st) (promises st))
       (forEach e close_ev (CloseArg code) st)"
proof -
  let ?t = "if ws st \<noteq> None \<and> ws_readyState st \<noteq> Some CLOSED
            \<and> of_nat attempt < maxReconnectAttempts_of cfg - 1 \<and> code \<noteq> 1000
         then
           (case reconnectTimeouts (maxReconnectAttempts_of cfg) of
              Inr table \<Rightarrow> timeouts st @ [(table ! attempt, attempt + 1)]
            | Inl err \<Rightarrow> timeouts st)
         else timeouts st"
  have "onclose e cfg attempt code st =
      forEach e close_ev (CloseArg code)
        (with_io (ws st) (messageQueue st) ?t (console st) (promises st) st)"
    by (auto simp add: onclose_def with_io_def split: sum.splits)
  then show ?thesis by (simp only: forEach_with_io)
qed

text \<open>
  What the handler schedules, in every state: nothing when the close code is 1000, or
  \<open>attempt\<close> is not below \<open>maxReconnectAttempts - 1\<close>, or there is no socket, or the shared
  socket is in the state \<^verbatim>\<open>CLOSED\<close>; otherwise one timeout for \<^verbatim>\<open>reconnect(attempt + 1)\<close>
  after the delay the schedule has at index \<open>attempt\<close>.
\<close>

lemma onclose_schedule:
  "(code = 1000 \<or> \<not> of_nat attempt < maxReconnectAttempts_of cfg - 1
      \<or> ws st = None \<or> ws_readyState st = Some CLOSED \<longrightarrow>
      timeouts (snd (onclose e cfg attempt code st)) = timeouts st)
   \<and> (code \<noteq> 1000 \<and> of_nat attempt < maxReconnectAttempts_of cfg - 1
        \<and> ws st \<noteq> None \<and> ws_readyState st \<noteq> Some CLOSED
        \<and> reconnectTimeouts (maxReconnectAttempts_of cfg) = Inr table \<longrightarrow>
        timeouts (snd (onclose e cfg attempt code st)) =
          timeouts st @ [(table ! attempt, attempt + 1)])"
  by (auto simp add: onclose_forEach with_io_def)

text \<open>
  The close event is published to the close-listeners in every case: the publish throws
  and invokes as it does on the state before the handler, and listeners that neither
  unsubscribe nor throw are all invoked with the event, in the order of registration.
\<close>

lemma onclose_publishes:
  "fst (onclose e cfg attempt code st) = fst (forEach e close_ev (CloseArg code) st)
   \<and> invoked (snd (onclose e cfg attempt code st)) =
        invoked (snd (forEach e close_ev (CloseArg code) st))
   \<and> ((\<forall>l \<in> set (listeners st close_ev). callback e l = []) \<longrightarrow>
        fst (onclose e cfg attempt code st) = None
        \<and> invoked (snd (onclose e cfg attempt code st)) =
            invoked st @ map (\<lambda>l. (l, CloseArg code)) (listeners st close_ev))"
proof -
  have plain: "fst (forEach e close_ev (CloseArg code) st) = None
      \<and> invoked (snd (forEach e close_ev (CloseArg code) st)) =
            invoked st @ map (\<lambda>l. (l, CloseArg code)) (listeners st close_ev)"
    if "\<forall>l \<in> set (listeners st close_ev). callback e l = []"
    using forEach_plain [OF that, of "CloseArg code"] by simp
  show ?thesis
    using plain by (auto simp add: onclose_forEach with_io_def)
qed

text \<open>
  When the socket that the shared variable holds closes, the host has set it to
  \<^verbatim>\<open>CLOSED\<close> before the handler runs, so the handler schedules nothing, whatever the code
  and the attempt.
\<close>

lemma socket_closes_schedules_nothing:
  "timeouts (snd (socket_closes e cfg attempt code st)) = timeouts st"
proof (cases "ws st")
  case None
  then show ?thesis by (simp add: socket_closes_def)
next
  case (Some w)
  let ?st = "st\<lparr>ws := Some (w\<lparr>readyState := CLOSED\<rparr>)\<rparr>"
  have "ws_readyState ?st = Some CLOSED" by (simp add: ws_readyState_def)
  with onclose_schedule [of code attempt cfg ?st e]
  have "timeouts (snd (onclose e cfg attempt code ?st)) = timeouts ?st" by blast
  with Some show ?thesis by (simp add: socket_closes_def)
qed

text \<open>
  C2 asks that a close with a code other than 1000, while attempts are left, schedules
  exactly one reconnect after the backoff duration of the current attempt. The code
  does otherwise: an open socket, made by \<^verbatim>\<open>reconnect(0)\<close> with five attempts configured,
  loses its connection and closes with code 1006. The host has set the socket to
  \<^verbatim>\<open>CLOSED\<close> when \<^verbatim>\<open>ws.onclose\<close> runs, so the test \<^verbatim>\<open>ws.readyState !== WebSocket.CLOSED\<close> fails
  and no reconnect is scheduled; the close event is published all the same. The test
  lets a reconnect through only when the shared variable holds another socket that is
  not closed, here one that is closing: this is a state in which C2 asks for no
  reconnect, since the socket is not open.
\<close>

theorem C2_abnormal_close_schedules_no_reconnect:
  "getStatus (onClose 4 (client_in OPEN)) = CONNECTED
   \<and> maxReconnectAttempts_of demo_config = 5
   \<and> timeouts (onClose 4 (client_in OPEN)) = []
   \<and> timeouts (snd (socket_closes demo_env demo_config 0 1006 (onClose 4 (client_in OPEN)))) = []
   \<and> invoked (snd (socket_closes demo_env demo_config 0 1006 (onClose 4 (client_in OPEN)))) =
        [(4, CloseArg 1006)]
   \<and> getStatus (client_in CLOSING) \<noteq> CONNECTED
   \<and> timeouts (snd (onclose demo_env demo_config 0 1006 (client_in CLOSING))) =
        [(Finite 1000, 1)]"
proof -
  have m: "maxReconnectAttempts_of demo_config = 5"
    by (simp add: maxReconnectAttempts_of_def or_default_def demo_config_def)
  let ?st = "onClose 4 (client_in OPEN)"
  have s: "getStatus ?st = CONNECTED" "timeouts ?st = []"
    "ws ?st = Some (socket_in OPEN)"
    "getStatus (client_in CLOSING) \<noteq> CONNECTED"
    by (simp_all add: getStatus_def onClose_def addListener_def client_in_def socket_in_def
        new_client_def)
  let ?closed = "?st\<lparr>ws := Some ((socket_in OPEN)\<lparr>readyState := CLOSED\<rparr>)\<rparr>"
  have c: "socket_closes demo_env demo_config 0 1006 ?st =
      onclose demo_env demo_config 0 1006 ?closed"
    by (simp add: socket_closes_def s(3))
  have l: "listeners ?closed close_ev = [4]" "invoked ?closed = []"
    "\<forall>l \<in> set (listeners ?closed close_ev). callback demo_env l = []"
    by (simp_all add: onClose_def addListener_def client_in_def new_client_def demo_env_def)
  from onclose_publishes [of demo_env demo_config 0 1006 ?closed] l
  have p: "invoked (snd (socket_closes demo_env demo_config 0 1006 ?st)) = [(4, CloseArg 1006)]"
    by (auto simp add: c)
  have t: "timeouts (snd (socket_closes demo_env demo_config 0 1006 ?st)) = []"
    by (simp add: socket_closes_schedules_nothing s(2))
  have g: "timeouts (snd (onclose demo_env demo_config 0 1006 (client_in CLOSING))) =
        [(Finite 1000, 1)]"
    by (simp add: onclose_forEach with_io_def m reconnectTimeouts_5 ws_readyState_def
        client_in_def socket_in_def new_client_def)
  from m s(1,2,4) t p g show ?thesis by simp
qed

section \<open>The message handler\<close>




text \<open>
  The \<^verbatim>\<open>try\<close> block of the handler holds the publish as well as the parse. When a
  listener throws on a parsed value, the \<^verbatim>\<open>catch\<close> block meant for the parse failure
  runs: for a textual payload the listeners are invoked a second time, with the
  wrapper, and the exception of that second publish escapes from the handler.
\<close>

lemma onmessage_listener_throws:
  "JSON_parse throwing_env (data_toString (TextData ''1'')) = Some (JNumber 1)
   \<and> onmessage throwing_env (TextData ''1'') (onMessage 4 new_client) =
        (Some ListenerThrew,
         (onMessage 4 new_client)\<lparr>invoked :=
            [(4, MessageArg (JNumber 1)),
             (4, MessageArg (JObject [(''data'', JString ''1'')]))]\<rparr>)"
  by (simp add: onmessage_def parse_and_publish_def forEach_def forEach_from.simps
      call_listener_def wrapper_def throwing_env_def demo_env_def demo_parse_def
      onMessage_def addListener_def new_client_def)

section \<open>Unsubscribing during a publish\<close>

lemma indexOf_ge: "-1 \<le> indexOf xs x"
  by (induction xs) (auto simp: Let_def)

lemma indexOf_notin: "indexOf xs x = -1 \<longleftrightarrow> x \<notin> set xs"
proof (induction xs)
  case Nil
  show ?case by simp
next
  case (Cons y ys)
  from indexOf_ge [of ys x] have "indexOf ys x + 1 \<noteq> -1" by simp
  with Cons show ?case by (simp add: Let_def)
qed

lemma indexOf_nonneg: "x \<in> set xs \<Longrightarrow> 0 \<le> indexOf xs x"
  using indexOf_ge [of xs x] indexOf_notin [of xs x] by linarith

lemma splice1_indexOf: "x \<in> set xs \<Longrightarrow> splice1 xs (nat (indexOf xs x)) = remove1 x xs"
proof (induction xs)
  case Nil
  then show ?case by simp
next
  case (Cons y ys)
  show ?case
  proof (cases "y = x")
    case True
    then show ?thesis by (simp add: splice1_def)
  next
    case False
    with Cons.prems have in_ys: "x \<in> set ys" by simp
    then have "indexOf ys x \<noteq> -1" "0 \<le> indexOf ys x"
      by (simp_all add: indexOf_notin indexOf_nonneg)
    then have "nat (indexOf (y # ys) x) = Suc (nat (indexOf ys x))"
      using False by (simp add: Let_def nat_add_distrib)
    then show ?thesis using Cons.IH [OF in_ys] False by (simp add: splice1_def)
  qed
qed

text \<open>The function an \<^verbatim>\<open>on...\<close> call returns removes the first occurrence of its listener.\<close>

lemma listeners_removeListener:
  "listeners (removeListener kind l st) kind' =
     (if kind' = kind then remove1 l (listeners st kind) else listeners st kind')"
proof (cases "l \<in> set (listeners st kind)")
  case True
  then show ?thesis
    by (simp add: removeListener_def Let_def indexOf_notin splice1_indexOf)
next
  case False
  then show ?thesis
    by (simp add: removeListener_def Let_def indexOf_notin remove1_idem)
qed

text \<open>
  C8 asks that a listener which unsubscribes during a publish leaves the pass intact:
  every other listener registered when the publish began is still invoked once. On
  \<open>two_listeners\<close>, where listener 1 unsubscribes itself and listener 2 does nothing, the
  code does otherwise: the first publish invokes listener 1 only. Its removal moves
  listener 2 to index 0, which the loop has passed, so listener 2, registered when the
  publish began, is not invoked in that pass. The rest of C8 holds here: nothing is
  thrown, and the next publish invokes listener 2 and no longer listener 1.
\<close>

theorem C8_unsubscribe_skips_next_listener:
  "listeners two_listeners message_ev = [1, 2]
   \<and> forEach unsubscribing_env message_ev (MessageArg (JNumber 1)) two_listeners =
        (None, two_listeners\<lparr>listeners := (listeners two_listeners)(message_ev := [2]),
           invoked := [(1, MessageArg (JNumber 1))]\<rparr>)
   \<and> onmessage unsubscribing_env (TextData ''1'') two_listeners =
        (None, two_listeners\<lparr>listeners := (listeners two_listeners)(message_ev := [2]),
           invoked := [(1, MessageArg (JNumber 1))]\<rparr>)
   \<and> invoked (snd (forEach unsubscribing_env message_ev (MessageArg (JNumber 2))
        (snd (forEach unsubscribing_env message_ev (MessageArg (JNumber 1)) two_listeners)))) =
        [(1, MessageArg (JNumber 1)), (2, MessageArg (JNumber 2))]"
proof -
  have l: "listeners two_listeners message_ev = [1, 2]" "invoked two_listeners = []"
    by (simp_all add: two_listeners_def onMessage_def addListener_def new_client_def)
  have c: "callback unsubscribing_env (Suc 0) = [Unsubscribe message_ev 1]"
    "callback unsubscribing_env 2 = []"
    by (simp_all add: unsubscribing_env_def demo_env_def)
  let ?st = "two_listeners\<lparr>listeners := (listeners two_listeners)(message_ev := [2]),
           invoked := [(1, MessageArg (JNumber 1))]\<rparr>"
  have first: "forEach unsubscribing_env message_ev (MessageArg (JNumber 1)) two_listeners =
      (None, ?st)"
    by (simp add: forEach_def forEach_from.simps call_listener_def removeListener_def
        splice1_def l c Let_def)
  have second: "invoked (snd (forEach unsubscribing_env message_ev (MessageArg (JNumber 2)) ?st)) =
      [(1, MessageArg (JNumber 1)), (2, MessageArg (JNumber 2))]"
    by (simp add: forEach_def forEach_from.simps call_listener_def c)
  have "JSON_parse unsubscribing_env (data_toString (TextData ''1'')) = Some (JNumber 1)"
    by (simp add: unsubscribing_env_def demo_env_def demo_parse_def)
  then have "onmessage unsubscribing_env (TextData ''1'') two_listeners = (None, ?st)"
    by (simp add: onmessage_def parse_and_publish_def first)
  with l first second show ?thesis by simp
qed

text \<open>
  The parts of C8 that hold for every registry and all bodies that only unsubscribe: a
  publish throws nothing, it invokes only listeners that were registered when it began,
  all with the published value, and it adds no listener. So a listener that has
  unsubscribed is not invoked by a later publish.
\<close>

lemma run_body_no_throw: "Throw \<notin> set es \<Longrightarrow> fst (run_body es st) = None"
  by (induction es st rule: run_body.induct) simp_all

lemma run_body_listeners:
  "set (listeners (snd (run_body es st)) kind) \<subseteq> set (listeners st kind)"
proof (induction es st rule: run_body.induct)
  case (2 k l es st)
  have "set (listeners (removeListener k l st) kind) \<subseteq> set (listeners st kind)"
    using set_remove1_subset [of l "listeners st k"] by (simp add: listeners_removeListener)
  with 2 show ?case by auto
qed simp_all

lemma call_listener_unsubscribing:
  assumes "Throw \<notin> set (callback e l)"
  shows "fst (call_listener e l arg st) = None"
    and "set (listeners (snd (call_listener e l arg st)) kind) \<subseteq> set (listeners st kind)"
    and "invoked (snd (call_listener e l arg st)) = invoked st @ [(l, arg)]"
  using assms run_body_listeners [of "callback e l" "st\<lparr>invoked := invoked st @ [(l, arg)]\<rparr>" kind]
  by (simp_all add: call_listener_def run_body_no_throw run_body_invoked)

lemma forEach_from_unsubscribing:
  assumes "\<forall>l. Throw \<notin> set (callback e l)"
  shows "fst (forEach_from e kind arg k len st) = None
     \<and> set (listeners (snd (forEach_from e kind arg k len st)) kind) \<subseteq> set (listeners st kind)
     \<and> (\<exists>ls. invoked (snd (forEach_from e kind arg k len st)) =
            invoked st @ map (\<lambda>l. (l, arg)) ls
          \<and> set ls \<subseteq> set (listeners st kind))"
  using assms
proof (induction e kind arg k len st rule: forEach_from.induct)
  case (1 e kind arg k len st)
  note unfold = forEach_from.simps [of e kind arg k len st]
  show ?case
  proof (cases "k < len")
    case False
    then show ?thesis by (simp add: unfold)
  next
    case True
    show ?thesis
    proof (cases "k < length (listeners st kind)")
      case False
      with True 1(2) [OF True False "1.prems"] show ?thesis by (simp add: unfold)
    next
      case inside: True
      let ?l = "listeners st kind ! k"
      obtain ex st' where c: "call_listener e ?l arg st = (ex, st')"
        by (cases "call_listener e ?l arg st")
      have nt: "Throw \<notin> set (callback e ?l)" using "1.prems" by simp
      note cl = call_listener_unsubscribing [OF nt]
      from cl(1) [of arg st] cl(2) [of arg st kind] cl(3) [of arg st] c
      have ex: "ex = None" and sub: "set (listeners st' kind) \<subseteq> set (listeners st kind)"
        and inv: "invoked st' = invoked st @ [(?l, arg)]"
        by simp_all
      let ?r = "forEach_from e kind arg (Suc k) len st'"
      from 1(1) [OF True inside c [symmetric] ex "1.prems"]
      obtain ls where r: "fst ?r = None" "set (listeners (snd ?r) kind) \<subseteq> set (listeners st' kind)"
        "invoked (snd ?r) = invoked st' @ map (\<lambda>l. (l, arg)) ls"
        "set ls \<subseteq> set (listeners st' kind)"
        by blast
      have u: "forEach_from e kind arg k len st = ?r"
        using True inside c ex by (simp add: unfold)
      have "invoked (snd ?r) = invoked st @ map (\<lambda>l. (l, arg)) (?l # ls)"
        "set (?l # ls) \<subseteq> set (listeners st kind)"
        using r(3,4) inv sub inside by auto
      with r(1,2) sub u show ?thesis by (metis subset_trans)
    qed
  qed
qed

lemma forEach_unsubscribing:
  assumes "\<forall>l. Throw \<notin> set (callback e l)"
  shows "fst (forEach e kind arg st) = None
     \<and> set (listeners (snd (forEach e kind arg st)) kind) \<subseteq> set (listeners st kind)
     \<and> (\<exists>ls. invoked (snd (forEach e kind arg st)) = invoked st @ map (\<lambda>l. (l, arg)) ls
          \<and> set ls \<subseteq> set (listeners st kind))"
  using forEach_from_unsubscribing [OF assms] by (simp add: forEach_def)

section \<open>The promise of isReady\<close>

lemma length_settle_promise [simp]: "length (settle_promise s ps) = length ps"
  by (cases s) (simp_all add: settle_promise_def)

lemma length_fold_settle [simp]: "length (fold settle_promise ss ps) = length ps"
  by (induction ss arbitrary: ps) simp_all

lemma settle_promise_other: "target s \<noteq> p \<Longrightarrow> settle_promise s ps ! p = ps ! p"
  by (cases s) (simp_all add: settle_promise_def)

lemma fold_settle_other:
  "list_all (\<lambda>s. target s \<noteq> p) ss \<Longrightarrow> fold settle_promise ss ps ! p = ps ! p"
  by (induction ss arbitrary: ps) (simp_all add: settle_promise_other)

lemma settle_promise_settled:
  "ps ! p \<noteq> Pending \<Longrightarrow> p < length ps \<Longrightarrow> settle_promise s ps ! p = ps ! p"
  by (cases s) (auto simp add: settle_promise_def nth_list_update)

lemma fold_settle_settled:
  "ps ! p \<noteq> Pending \<Longrightarrow> p < length ps \<Longrightarrow> fold settle_promise ss ps ! p = ps ! p"
  by (induction ss arbitrary: ps) (simp_all add: settle_promise_settled)

lemma forEach_io:
  "ws (snd (forEach e kind arg st)) = ws st
   \<and> messageQueue (snd (forEach e kind arg st)) = messageQueue st
   \<and> promises (snd (forEach e kind arg st)) = promises st"
proof -
  let ?f = "with_io (ws st) (messageQueue st) (timeouts st) (console st) (promises st)"
  have "?f st = st" by (simp add: with_io_def)
  with forEach_with_io [of e kind arg "ws st" "messageQueue st" "timeouts st" "console st"
        "promises st" st]
  have "forEach e kind arg st = apsnd ?f (forEach e kind arg st)" by simp
  then have "snd (forEach e kind arg st) = snd (apsnd ?f (forEach e kind arg st))"
    by (rule arg_cong)
  then have eq: "snd (forEach e kind arg st) = ?f (snd (forEach e kind arg st))"
    by (simp only: snd_apsnd)
  have "ws (?f x) = ws st" "messageQueue (?f x) = messageQueue st" "promises (?f x) = promises st"
    for x by (simp_all add: with_io_def)
  then show ?thesis by (metis eq)
qed

text \<open>What the two socket events do to the promises and to the one-shot listeners.\<close>

lemma socket_opens_effect:
  assumes "ws st = Some w"
  shows "\<exists>w'. ws (socket_opens e st) = Some w'
     \<and> onceListeners w' = filter (\<lambda>l. fst l \<noteq> OpenEvent) (onceListeners w)
     \<and> promises (socket_opens e st) =
         fold settle_promise (map snd (filter (\<lambda>l. fst l = OpenEvent) (onceListeners w)))
           (promises st)"
proof -
  let ?st = "st\<lparr>ws := Some (w\<lparr>readyState := OPEN\<rparr>)\<rparr>"
  have "ws ?st = Some (w\<lparr>readyState := OPEN\<rparr>)" by simp
  from drain_prefix [OF this, of e]
  obtain w' where d: "ws (drain e ?st) = Some w'" "onceListeners w' = onceListeners w"
    "promises (drain e ?st) = promises st"
    by auto
  have "ws (snd (onopen e ?st)) = Some w'" "promises (snd (onopen e ?st)) = promises st"
    using d forEach_io [of e open_ev NoArg "drain e ?st"] by (simp_all add: onopen_def)
  then show ?thesis
    using assms d(2) by (simp add: socket_opens_def dispatch_once_def)
qed

lemma socket_errors_effect:
  assumes "ws st = Some w"
  shows "\<exists>w'. ws (socket_errors e st) = Some w'
     \<and> onceListeners w' = filter (\<lambda>l. fst l \<noteq> ErrorEvent) (onceListeners w)
     \<and> promises (socket_errors e st) =
         fold settle_promise (map snd (filter (\<lambda>l. fst l = ErrorEvent) (onceListeners w)))
           (promises st)"
  using assms forEach_io [of e error_ev ErrorArg st]
  by (simp add: socket_errors_def dispatch_once_def onerror_def)
lemma isReady_pending:
  assumes "ws st = Some w" "readyState w \<noteq> OPEN"
  shows "isReady st =
     (length (promises st),
      st\<lparr>promises := promises st @ [Pending],
         ws := Some (w\<lparr>onceListeners := onceListeners w @
            [(OpenEvent, Resolve (length (promises st))),
             (ErrorEvent, Reject (length (promises st)))]\<rparr>)\<rparr>)"
  using assms by (simp add: isReady_def ws_readyState_def Let_def)

lemma known_others:
  assumes "listeners_known st" "ws st = Some w"
  shows "list_all (\<lambda>s. target s \<noteq> length (promises st))
     (map snd (filter (\<lambda>l. fst l = ev) (onceListeners w)))"
  using assms by (auto simp add: listeners_known_def list_all_iff)

text \<open>
  The promise of \<^verbatim>\<open>isReady\<close> on a socket that is not open: pending at first, fulfilled by
  the socket's next \<^verbatim>\<open>open\<close> event, rejected by its next \<^verbatim>\<open>error\<close> event, whichever comes
  first, and unchanged by the other event afterwards.
\<close>

lemma isReady_settles:
  assumes w: "ws st = Some w" "readyState w \<noteq> OPEN" and known: "listeners_known st"
    and r: "isReady st = (p, st1)"
  shows "promises st1 ! p = Pending"
    and "promises (socket_opens e st1) ! p = Fulfilled"
    and "promises (socket_errors e st1) ! p = Rejected"
    and "promises (socket_errors e (socket_opens e st1)) ! p = Fulfilled"
    and "promises (socket_opens e (socket_errors e st1)) ! p = Rejected"
proof -
  let ?L = "onceListeners w @ [(OpenEvent, Resolve p), (ErrorEvent, Reject p)]"
  let ?w1 = "w\<lparr>onceListeners := ?L\<rparr>"
  from r isReady_pending [OF w]
  have p: "p = length (promises st)"
    and st1: "st1 = st\<lparr>promises := promises st @ [Pending], ws := Some ?w1\<rparr>"
    by auto
  have ws1: "ws st1 = Some ?w1" and ps1: "promises st1 = promises st @ [Pending]"
    by (simp_all add: st1)
  show pending: "promises st1 ! p = Pending" by (simp add: ps1 p)
  have others: "list_all (\<lambda>s. target s \<noteq> p)
      (map snd (filter (\<lambda>l. fst l = ev) (onceListeners w)))" for ev
    using known_others [OF known w(1)] p by simp
  have settle_open: "fold settle_promise (map snd (filter (\<lambda>l. fst l = OpenEvent) ?L)) ps ! p =
      Fulfilled" if "ps ! p = Pending" "length ps = Suc p" for ps
  proof -
    let ?ps = "fold settle_promise (map snd (filter (\<lambda>l. fst l = OpenEvent) (onceListeners w))) ps"
    have "?ps ! p = Pending" "length ?ps = Suc p"
      using fold_settle_other [OF others, of OpenEvent ps] that by simp_all
    then show ?thesis by (simp add: settle_promise_def)
  qed
  have settle_error: "fold settle_promise (map snd (filter (\<lambda>l. fst l = ErrorEvent) ?L)) ps ! p =
      Rejected" if "ps ! p = Pending" "length ps = Suc p" for ps
  proof -
    let ?ps = "fold settle_promise (map snd (filter (\<lambda>l. fst l = ErrorEvent) (onceListeners w))) ps"
    have "?ps ! p = Pending" "length ?ps = Suc p"
      using fold_settle_other [OF others, of ErrorEvent ps] that by simp_all
    then show ?thesis by (simp add: settle_promise_def)
  qed
  from socket_opens_effect [OF ws1, of e]
  obtain wo where wo: "ws (socket_opens e st1) = Some wo"
    "promises (socket_opens e st1) =
       fold settle_promise (map snd (filter (\<lambda>l. fst l = OpenEvent) ?L)) (promises st1)"
    by auto
  show opened: "promises (socket_opens e st1) ! p = Fulfilled"
    using settle_open [of "promises st1"] pending by (simp add: wo(2) ps1 p)
  from socket_errors_effect [OF ws1, of e]
  obtain we where we: "ws (socket_errors e st1) = Some we"
    "promises (socket_errors e st1) =
       fold settle_promise (map snd (filter (\<lambda>l. fst l = ErrorEvent) ?L)) (promises st1)"
    by auto
  show failed: "promises (socket_errors e st1) ! p = Rejected"
    using settle_error [of "promises st1"] pending by (simp add: we(2) ps1 p)
  have len_o: "p < length (promises (socket_opens e st1))"
    and len_e: "p < length (promises (socket_errors e st1))"
    by (simp_all add: wo(2) we(2) ps1 p)
  from socket_errors_effect [OF wo(1), of e]
  obtain L where "promises (socket_errors e (socket_opens e st1)) =
      fold settle_promise L (promises (socket_opens e st1))"
    by auto
  then show "promises (socket_errors e (socket_opens e st1)) ! p = Fulfilled"
    using fold_settle_settled [OF _ len_o, of L] opened by simp
  from socket_opens_effect [OF we(1), of e]
  obtain L' where "promises (socket_opens e (socket_errors e st1)) =
      fold settle_promise L' (promises (socket_errors e st1))"
    by auto
  then show "promises (socket_opens e (socket_errors e st1)) ! p = Rejected"
    using fold_settle_settled [OF _ len_e, of L'] failed by simp
qed

text \<open>
  The promise of \<^verbatim>\<open>isReady\<close> when there is no socket: no listener is added, and the events
  of the socket that \<^verbatim>\<open>connect\<close> makes afterwards leave the promise pending.
\<close>

lemma isReady_no_socket:
  assumes "ws st = None"
  shows "isReady st = (length (promises st), st\<lparr>promises := promises st @ [Pending]\<rparr>)"
    and "promises (socket_opens e (connect (snd (isReady st)))) ! fst (isReady st) = Pending"
    and "promises (socket_errors e (connect (snd (isReady st)))) ! fst (isReady st) = Pending"
proof -
  show r: "isReady st = (length (promises st), st\<lparr>promises := promises st @ [Pending]\<rparr>)"
    using assms by (simp add: isReady_def ws_readyState_def)
  let ?st = "connect (snd (isReady st))"
  let ?w = "\<lparr>readyState = CONNECTING, sent = [], onceListeners = []\<rparr>"
  have c: "ws ?st = Some ?w" "promises ?st = promises st @ [Pending]"
    "messageQueue ?st = messageQueue st"
    using assms by (simp_all add: r connect_def reconnect_def)
  from socket_opens_effect [OF c(1), of e] socket_errors_effect [OF c(1), of e] c(2)
  show "promises (socket_opens e ?st) ! fst (isReady st) = Pending"
    and "promises (socket_errors e ?st) ! fst (isReady st) = Pending"
    by (auto simp add: r)
qed
text \<open>
  C9, as stated, fails in the state Disconnected: \<^verbatim>\<open>isReady\<close> called before any socket
  exists adds no listener (\<^verbatim>\<open>ws?.addEventListener\<close> on \<^verbatim>\<open>null\<close>), so its promise is still
  pending after \<^verbatim>\<open>connect\<close> has made a socket and that socket has reached Connected, and
  an error event afterwards does not reject it either.
\<close>

theorem C9_isReady_counterexample:
  "getStatus new_client = DISCONNECTED
   \<and> fst (isReady new_client) = 0
   \<and> getStatus (socket_opens demo_env (connect (snd (isReady new_client)))) = CONNECTED
   \<and> promises (socket_opens demo_env (connect (snd (isReady new_client)))) ! 0 = Pending
   \<and> promises (socket_errors demo_env
        (socket_opens demo_env (connect (snd (isReady new_client))))) ! 0 = Pending"
  by (simp add: getStatus_def isReady_def ws_readyState_def connect_def reconnect_def
      socket_opens_def socket_errors_def onopen_def onerror_def drain_empty forEach_def
      forEach_from.simps dispatch_once_def new_client_def)

text \<open>
  C9, amended: \<^verbatim>\<open>isReady\<close> returns a new promise. It is fulfilled at once when the socket is
  open. When there is a socket and it is not open, the promise is pending, the next
  \<^verbatim>\<open>open\<close> event of that socket fulfils it and the next \<^verbatim>\<open>error\<close> event of that socket
  rejects it, whichever comes first, and the other event changes nothing afterwards.
  When there is no socket, nothing is registered: the promise is pending and the events
  of the socket that \<^verbatim>\<open>connect\<close> makes afterwards do not settle it.
\<close>

theorem C9_isReady:
  "(ws_readyState st = Some OPEN \<longrightarrow>
      isReady st = (length (promises st), st\<lparr>promises := promises st @ [Fulfilled]\<rparr>))
   \<and> (ws st = Some w \<and> readyState w \<noteq> OPEN \<and> listeners_known st \<longrightarrow>
        promises (snd (isReady st)) ! fst (isReady st) = Pending
        \<and> promises (socket_opens e (snd (isReady st))) ! fst (isReady st) = Fulfilled
        \<and> promises (socket_errors e (snd (isReady st))) ! fst (isReady st) = Rejected
        \<and> promises (socket_errors e (socket_opens e (snd (isReady st)))) ! fst (isReady st) =
            Fulfilled
        \<and> promises (socket_opens e (socket_errors e (snd (isReady st)))) ! fst (isReady st) =
            Rejected)
   \<and> (ws st = None \<longrightarrow>
        isReady st = (length (promises st), st\<lparr>promises := promises st @ [Pending]\<rparr>)
        \<and> promises (socket_opens e (connect (snd (isReady st)))) ! fst (isReady st) = Pending
        \<and> promises (socket_errors e (connect (snd (isReady st)))) ! fst (isReady st) = Pending)"
proof (intro conjI impI)
  assume "ws_readyState st = Some OPEN"
  then show "isReady st = (length (promises st), st\<lparr>promises := promises st @ [Fulfilled]\<rparr>)"
    by (simp add: isReady_def)
next
  assume a: "ws st = Some w \<and> readyState w \<noteq> OPEN \<and> listeners_known st"
  have r: "isReady st = (fst (isReady st), snd (isReady st))" by simp
  from a have w: "ws st = Some w" "readyState w \<noteq> OPEN" and k: "listeners_known st"
    by simp_all
  note s = isReady_settles [OF w k r]
  show "promises (snd (isReady st)) ! fst (isReady st) = Pending"
    by (rule s(1))
  show "promises (socket_opens e (snd (isReady st))) ! fst (isReady st) = Fulfilled"
    by (rule s(2))
  show "promises (socket_errors e (snd (isReady st))) ! fst (isReady st) = Rejected"
    by (rule s(3))
  show "promises (socket_errors e (socket_opens e (snd (isReady st)))) ! fst (isReady st) =
            Fulfilled"
    by (rule s(4))
  show "promises (socket_opens e (socket_errors e (snd (isReady st)))) ! fst (isReady st) =
            Rejected"
    by (rule s(5))
next
  assume a: "ws st = None"
  note n = isReady_no_socket [OF a]
  show "isReady st = (length (promises st), st\<lparr>promises := promises st @ [Pending]\<rparr>)"
    by (rule n(1))
  show "promises (socket_opens e (connect (snd (isReady st)))) ! fst (isReady st) = Pending"
    by (rule n(2))
  show "promises (socket_errors e (connect (snd (isReady st)))) ! fst (isReady st) = Pending"
    by (rule n(3))
qed

theorem C9_isReady_witness:
  "ws_readyState (client_in OPEN) = Some OPEN
   \<and> isReady (client_in OPEN) = (0, (client_in OPEN)\<lparr>promises := [Fulfilled]\<rparr>)
   \<and> ws (client_in CONNECTING) = Some (socket_in CONNECTING)
   \<and> readyState (socket_in CONNECTING) \<noteq> OPEN \<and> listeners_known (client_in CONNECTING)
   \<and> fst (isReady (client_in CONNECTING)) = 0
   \<and> promises (snd (isReady (client_in CONNECTING))) ! 0 = Pending
   \<and> promises (socket_opens demo_env (snd (isReady (client_in CONNECTING)))) ! 0 = Fulfilled
   \<and> promises (socket_errors demo_env (snd (isReady (client_in CONNECTING)))) ! 0 = Rejected
   \<and> ws new_client = None
   \<and> isReady new_client = (0, new_client\<lparr>promises := [Pending]\<rparr>)
   \<and> promises (socket_opens demo_env (connect (snd (isReady new_client)))) ! 0 = Pending"
proof -
  have o: "ws_readyState (client_in OPEN) = Some OPEN" "promises (client_in r) = []" for r
    by (simp_all add: ws_readyState_def client_in_def socket_in_def new_client_def)
  have c: "ws (client_in CONNECTING) = Some (socket_in CONNECTING)"
    "readyState (socket_in CONNECTING) \<noteq> OPEN" "listeners_known (client_in CONNECTING)"
    "fst (isReady (client_in CONNECTING)) = 0"
    by (simp_all add: listeners_known_def isReady_def ws_readyState_def client_in_def
        socket_in_def new_client_def)
  have n: "ws new_client = None" "promises new_client = []" "fst (isReady new_client) = 0"
    by (simp_all add: isReady_def ws_readyState_def new_client_def)
  from C9_isReady [of "client_in OPEN" w demo_env]
  have "isReady (client_in OPEN) = (0, (client_in OPEN)\<lparr>promises := [Fulfilled]\<rparr>)"
    using o by auto
  moreover from C9_isReady [of "client_in CONNECTING" "socket_in CONNECTING" demo_env]
  have "promises (snd (isReady (client_in CONNECTING))) ! 0 = Pending
   \<and> promises (socket_opens demo_env (snd (isReady (client_in CONNECTING)))) ! 0 = Fulfilled
   \<and> promises (socket_errors demo_env (snd (isReady (client_in CONNECTING)))) ! 0 = Rejected"
    using c by auto
  moreover from C9_isReady [of new_client w demo_env]
  have "isReady new_client = (0, new_client\<lparr>promises := [Pending]\<rparr>)
   \<and> promises (socket_opens demo_env (connect (snd (isReady new_client)))) ! 0 = Pending"
    using n by auto
  ultimately show ?thesis using o(1) c n(1) by blast
qed

section \<open>Calls of createClient\<close>

text \<open>
  Once \<^verbatim>\<open>instance\<close> is set, a call returns it and does nothing else, whatever its
  configuration.
\<close>

lemma createClient_existing:
  "instance_var ms = Some h \<Longrightarrow> createClient cfg ms = (Returned h, ms)"
  by (simp add: createClient_def)

lemma createClient_finish_sets_instance:
  "instance_var (snd (createClient_finish cfg ms)) = Some (fst (createClient_finish cfg ms))"
  by (simp add: createClient_finish_def Let_def)

text \<open>
  A first call that finds a token (and whose schedule can be built) runs to its end
  without suspension, and every call after it returns the client it made.
\<close>

lemma createClient_twice:
  assumes "instance_var ms = None" "token ms = Some t" "t \<noteq> []"
    and "reconnectTimeouts (maxReconnectAttempts_of c1) = Inr table"
  shows "\<exists>h ms'. createClient c1 ms = (Returned h, ms')
     \<and> createClient c2 ms' = (Returned h, ms')"
proof -
  let ?ms1 = "ms\<lparr>window_listeners := window_listeners ms + 3,
                 idle_timers := idle_timers ms + 1\<rparr>"
  let ?h = "fst (createClient_finish c1 ?ms1)" and ?ms' = "snd (createClient_finish c1 ?ms1)"
  have "createClient c1 ms = (Returned ?h, ?ms')"
    using assms by (simp add: createClient_def Let_def split: prod.splits)
  moreover have "createClient c2 ?ms' = (Returned ?h, ?ms')"
    by (rule createClient_existing) (rule createClient_finish_sets_instance)
  ultimately show ?thesis by blast
qed

text \<open>
  A call that asks for \<open>2 ^ 32\<close> attempts or more throws before it has done anything: its
  promise is rejected and no client is made.
\<close>

lemma createClient_RangeError:
  assumes "instance_var ms = None" "maxReconnectAttempts cfg = Some n" "2 ^ 32 \<le> n"
  shows "createClient cfg ms = (Threw RangeError, ms)"
proof -
  from assms(2,3) have "n \<noteq> 0" by auto
  with assms(2) have "maxReconnectAttempts_of cfg = n"
    by (simp add: maxReconnectAttempts_of_def or_default_def)
  with assms(1,3) show ?thesis
    by (simp add: createClient_def reconnectTimeouts_above)
qed

text \<open>
  C10 asks that every call of \<^verbatim>\<open>createClient\<close> after the first returns the first call's
  client and has no effect. On two calls that overlap the code does otherwise:
  \<^verbatim>\<open>createClient(c1)\<close> is suspended at the token request, \<^verbatim>\<open>createClient(c2)\<close> is called and
  finds \<^verbatim>\<open>instance\<close> still \<^verbatim>\<open>null\<close>, so it adds window listeners, starts an idle timer,
  requests a token and is suspended as well; then both requests are answered. The first
  call returns client 0, the second call makes and returns client 1 from its own
  configuration, each client has opened a socket, and \<^verbatim>\<open>instance\<close> is left holding
  client 1.
\<close>

theorem C10_overlapping_calls_make_two_clients:
  "(let (r1, ms1) = createClient demo_config fresh_module;
        (r2, ms2) = createClient other_config ms1;
        (h1, ms3) = createClient_resume demo_config ''tok'' ms2;
        (h2, ms4) = createClient_resume other_config ''tok'' ms3
    in r1 = Awaiting demo_config \<and> r2 = Awaiting other_config
       \<and> h1 = 0 \<and> h2 = 1
       \<and> map fst (clients ms4) = [demo_config, other_config]
       \<and> map (getStatus \<circ> snd) (clients ms4) = [State_CONNECTING, State_CONNECTING]
       \<and> window_listeners ms4 = 6 \<and> idle_timers ms4 = 2 \<and> token_requests ms4 = 2
       \<and> instance_var ms4 = Some 1)"
proof -
  have m: "reconnectTimeouts (maxReconnectAttempts_of demo_config) =
        Inr [Finite 1000, Finite 2000, Finite 4000, Finite 8000, Finite 16000]"
    "reconnectTimeouts (maxReconnectAttempts_of other_config) =
        Inr [Finite 1000, Finite 2000, Finite 4000, Finite 8000, Finite 16000]"
    by (simp_all add: maxReconnectAttempts_of_def or_default_def other_config_def
        demo_config_def reconnectTimeouts_5)
  have a: "autoConnect demo_config = None" "autoConnect other_config = None"
    by (simp_all add: other_config_def demo_config_def)
  show ?thesis
    by (simp add: createClient_def createClient_resume_def createClient_finish_def
        fresh_module_def m a connect_def reconnect_def getStatus_def new_client_def Let_def)
qed

end
